theory Spec2Isabelle
  imports Main "HOL-Library.Char_ord" "HOL-Library.List_Lexorder" "HOL-Library.AList"
begin

section \<open>Python strings and bytes\<close>

text \<open>
  A Python \<open>str\<close> is modelled as a \<open>string\<close> whose characters are the code points
  below 256 (Latin-1); a \<open>bytes\<close> value is a list of the same 8-bit characters.
  Comparison of strings is Python's: lexicographic on code points, which is the order
  of \<open>HOL-Library.List_Lexorder\<close> over \<open>HOL-Library.Char_ord\<close>.
\<close>

type_synonym bytes = "char list"

text \<open>The exceptions the modelled code can raise; \<open>SystemExit\<close> carries the message
  (or exit code) given to \<open>sys.exit\<close>, and \<open>OSError\<close> stands for the operating-system
  errors other than \<open>FileNotFoundError\<close> (a directory where a file is expected, a file
  where a directory is expected, a refused access).\<close>

datatype py_error =
    KeyError string
  | IndexError
  | TypeError
  | ValueError
  | AttributeError
  | ZeroDivisionError
  | UnicodeDecodeError
  | FileNotFoundError
  | URLError
  | BadZipFile
  | OSError
  | CalledProcessError
  | SystemExit string

text \<open>\<open>str.lower()\<close> on one code point below 256: the letters A-Z and the Latin-1
  capitals 0xC0-0xDE (without the multiplication sign 0xD7) move up by 32, which sets
  bit 5 (clear in all of them).\<close>

definition lower_chr :: "char \<Rightarrow> char" where
  "lower_chr c =
     (let n = (of_char c :: nat)
      in if (65 \<le> n \<and> n \<le> 90) \<or> (192 \<le> n \<and> n \<le> 222 \<and> n \<noteq> 215)
         then Char (digit0 c) (digit1 c) (digit2 c) (digit3 c) (digit4 c) True (digit6 c) (digit7 c)
         else c)"

definition lower :: "string \<Rightarrow> string" where
  "lower s = map lower_chr s"

text \<open>\<open>str.isnumeric()\<close> on one code point below 256: the digits, the superscripts
  one, two, three and the three vulgar fractions.\<close>

definition isnumeric_chr :: "char \<Rightarrow> bool" where
  "isnumeric_chr c =
     (let n = (of_char c :: nat)
      in (48 \<le> n \<and> n \<le> 57) \<or> n = 178 \<or> n = 179 \<or> n = 185 \<or> n = 188 \<or> n = 189 \<or> n = 190)"

text \<open>\<open>str.isnumeric()\<close>: every character numeric, and at least one character.\<close>

definition isnumeric :: "string \<Rightarrow> bool" where
  "isnumeric s = (s \<noteq> [] \<and> list_all isnumeric_chr s)"

definition startswith :: "'a list \<Rightarrow> 'a list \<Rightarrow> bool" where
  "startswith s p = (take (length p) s = p)"

definition endswith :: "'a list \<Rightarrow> 'a list \<Rightarrow> bool" where
  "endswith s p = (length p \<le> length s \<and> drop (length s - length p) s = p)"

text \<open>\<open>s.split(sep)\<close> for a one-character separator: never empty, \<open>''''\<close> gives
  \<open>['''']\<close>.\<close>

fun split :: "string \<Rightarrow> char \<Rightarrow> string list" where
  "split [] sep = [] # []"
| "split (c # cs) sep =
     (if c = sep then [] # split cs sep
      else (case split cs sep of
              [] \<Rightarrow> [c] # []
            | seg # segs \<Rightarrow> (c # seg) # segs))"

text \<open>\<open>sep.join(parts)\<close>.\<close>

fun join :: "string \<Rightarrow> string list \<Rightarrow> string" where
  "join sep [] = []"
| "join sep [p] = p"
| "join sep (p # q # ps) = p @ sep @ join sep (q # ps)"

text \<open>A slice \<open>xs[a:b]\<close> with Python's rules: a negative bound counts from the end,
  and both bounds are clamped to the sequence.\<close>

definition slice_bound :: "nat \<Rightarrow> int \<Rightarrow> nat" where
  "slice_bound n i = (if i < 0 then nat (max 0 (int n + i)) else min n (nat i))"

definition slice :: "'a list \<Rightarrow> int \<Rightarrow> int \<Rightarrow> 'a list" where
  "slice xs a b =
     (let lo = slice_bound (length xs) a; hi = slice_bound (length xs) b
      in take (hi - lo) (drop lo xs))"

section \<open>Host detection\<close>

text \<open>\<open>detect_host\<close> reads \<open>platform.machine()\<close>; the value read is the argument.\<close>

definition detect_host :: "string \<Rightarrow> string" where
  "detect_host platform_machine =
     (let machine = lower platform_machine
      in if machine = ''amd64'' then ''x64''
         else if machine = ''arm64'' then ''arm64''
         else if machine = ''x86'' then ''x86''
         else ''x64'')"

definition ALL_HOSTS :: "string list" where
  "ALL_HOSTS = [''x64'', ''x86'', ''arm64'']"

definition ALL_TARGETS :: "string list" where
  "ALL_TARGETS = [''x64'', ''x86'', ''arm'', ''arm64'']"

section \<open>Dictionaries\<close>

text \<open>
  A Python \<open>dict\<close> keeps its keys in insertion order: it is an association list with
  distinct keys. \<open>d[k] = v\<close> is \<open>AList.update k v d\<close> (an existing key keeps its place, a
  new one goes to the end), \<open>k in d\<close> is \<open>map_of d k \<noteq> None\<close>, and \<open>d[k]\<close> raises
  \<open>KeyError\<close> on a missing key.
\<close>

definition getitem :: "(string \<times> 'v) list \<Rightarrow> string \<Rightarrow> py_error + 'v" where
  "getitem d k = (case map_of d k of None \<Rightarrow> Inl (KeyError k) | Some v \<Rightarrow> Inr v)"

text \<open>\<open>d.setdefault(k, []).append(v)\<close>.\<close>

definition setdefault_append :: "('k \<times> 'v list) list \<Rightarrow> 'k \<Rightarrow> 'v \<Rightarrow> ('k \<times> 'v list) list" where
  "setdefault_append d k v =
     AList.update k ((case map_of d k of None \<Rightarrow> [] | Some vs \<Rightarrow> vs) @ [v]) d"



text \<open>\<open>VSInstaller._find_first_item\<close>: the first item that satisfies the condition,
  or \<open>None\<close>.\<close>

definition find_first_item :: "'a list \<Rightarrow> ('a \<Rightarrow> bool) \<Rightarrow> 'a option" where
  "find_first_item items condition = List.find condition items"

section \<open>The manifest and the world\<close>

text \<open>
  The manifest is JSON. A payload always carries its three fields; of a package, the
  fields \<open>language\<close>, \<open>payloads\<close> and \<open>dependencies\<close> may be absent (\<open>None\<close>). Reading
  an absent field with \<open>package["payloads"]\<close> raises \<open>KeyError\<close>, with
  \<open>package.get("language")\<close> it gives \<open>None\<close>. The \<open>dependencies\<close> of the manifest
  are iterated, which yields the dependency identifiers in order.
\<close>

record payload =
  fileName :: string
  url :: string
  sha256 :: string

record package =
  pkg_id :: string
  language :: "string option"
  payloads :: "payload list option"
  dependencies :: "string list option"

type_synonym package_index = "(string \<times> package list) list"
type_synonym versions = "(string \<times> string) list"

text \<open>
  What \<open>urllib.request.urlopen(url)\<close> gives: an exception, or a response.
  \<open>content_length\<close> is the outcome of \<open>int(response.headers["Content-Length"])\<close> (it
  raises when the header is absent or no number); \<open>chunks\<close> are the values the
  successive calls \<open>response.read(1 << 20)\<close> return, and after them the stream is at its
  end (\<open>read\<close> returns \<open>b""\<close>) or, with \<open>stream_error\<close>, \<open>read\<close> raises.
\<close>

record http_response =
  content_length :: "py_error + int"
  chunks :: "bytes list"
  stream_error :: "py_error option"

text \<open>
  The state outside the program: the files of \<open>DOWNLOADS_DIR\<close> by name, the entries
  of \<open>OUTPUT_DIR\<close> (directories and files) by path (both directories exist and are
  writable), the network, the log of the URLs opened so far, what was written to the
  console, and the counter \<open>DownloadManager.total_bytes\<close>.
\<close>

datatype node = Directory | File bytes

record world =
  files :: "string \<rightharpoonup> bytes"
  outputs :: "string \<rightharpoonup> node"
  network :: "string \<Rightarrow> py_error + http_response"
  requests :: "string list"
  console :: "string list"
  total_bytes :: nat

text \<open>\<open>print(text, end=e)\<close> writes \<open>text + e\<close>; \<open>print(text)\<close> ends the line.\<close>

definition write_console :: "world \<Rightarrow> string \<Rightarrow> world" where
  "write_console w text = w\<lparr>console := console w @ [text]\<rparr>"

definition print :: "world \<Rightarrow> string \<Rightarrow> world" where
  "print w text = write_console w (text @ [CHR 0x0A])"

fun str_nat :: "nat \<Rightarrow> string" where
  "str_nat n =
     (if n < 10 then [''0123456789'' ! n]
      else str_nat (n div 10) @ [''0123456789'' ! (n mod 10)])"

definition str_int :: "int \<Rightarrow> string" where
  "str_int i = (if i < 0 then CHR ''-'' # str_nat (nat (- i)) else str_nat (nat i))"

text \<open>The command line, as far as the modelled functions read it.\<close>

record args =
  show_versions :: bool
  msvc_version :: "string option"
  sdk_version :: "string option"

record vs_installer =
  args :: args
  host :: string
  targets :: "string list"

section \<open>DownloadManager\<close>

text \<open>
  \<open>hashlib.sha256(data).digest()\<close> is a parameter, \<open>sha256_digest\<close>, of every function
  that hashes; \<open>hexdigest\<close> writes a digest as two lower-case hex digits per byte.
\<close>

definition hexdigest :: "bytes \<Rightarrow> string" where
  "hexdigest digest =
     concat (map (\<lambda>b. [''0123456789abcdef'' ! ((of_char b :: nat) div 16),
                        ''0123456789abcdef'' ! ((of_char b :: nat) mod 16)]) digest)"

text \<open>\<open>file.write(chunk)\<close> on the open cache file.\<close>

definition file_write :: "world \<Rightarrow> string \<Rightarrow> bytes \<Rightarrow> world" where
  "file_write w filename chunk =
     w\<lparr>files := (files w)(filename \<mapsto>
          (case files w filename of None \<Rightarrow> chunk | Some written \<Rightarrow> written @ chunk))\<rparr>"

text \<open>
  The \<open>while True\<close> loop of \<open>download_with_progress\<close>, over the chunks still to come.
  It returns the exception raised inside the loop, if any, the world and the contents of
  \<open>data_buffer\<close>.
\<close>

fun read_loop ::
  "string \<Rightarrow> int \<Rightarrow> bytes list \<Rightarrow> py_error option \<Rightarrow> world \<Rightarrow> bytes \<Rightarrow> nat
     \<Rightarrow> py_error option \<times> world \<times> bytes" where
  "read_loop filename total_size [] at_end w data_buffer downloaded = (at_end, w, data_buffer)"
| "read_loop filename total_size (chunk # rest) at_end w data_buffer downloaded =
     (if chunk = [] then (None, w, data_buffer)
      else
        (let w1 = file_write w filename chunk;
             data_buffer1 = data_buffer @ chunk;
             downloaded1 = downloaded + length chunk
         in if total_size = 0 then (Some ZeroDivisionError, w1, data_buffer1)
            else
              (let progress = int downloaded1 * 100 div total_size;
                   w2 = write_console w1
                          (CHR 0x0D # filename @ '' ... '' @ str_int progress @ ''%'')
               in read_loop filename total_size rest at_end w2 data_buffer1 downloaded1)))"

text \<open>
  \<open>download_with_progress\<close>. A cached file with the expected digest is returned as it
  is. Otherwise the cache file is opened for writing, which creates or empties it, the
  URL is opened, and the response is copied to the file and to \<open>data_buffer\<close>; an
  exception leaves the file with what was written so far.
\<close>

definition download_with_progress ::
  "(bytes \<Rightarrow> bytes) \<Rightarrow> world \<Rightarrow> string \<Rightarrow> string \<Rightarrow> string \<Rightarrow> (py_error + bytes) \<times> world" where
  "download_with_progress sha256_digest w url' expected_hash filename =
     (case (case files w filename of
              None \<Rightarrow> None
            | Some data \<Rightarrow>
                if hexdigest (sha256_digest data) = lower expected_hash then Some data else None) of
        Some data \<Rightarrow> (Inr data, print w (CHR 0x0D # filename @ '' ... OK''))
      | None \<Rightarrow>
          (let w1 = w\<lparr>files := (files w)(filename \<mapsto> [])\<rparr>;
               w2 = w1\<lparr>requests := requests w1 @ [url']\<rparr>
           in case network w2 url' of
                Inl e \<Rightarrow> (Inl e, w2)
              | Inr response \<Rightarrow>
                  (case content_length response of
                     Inl e \<Rightarrow> (Inl e, w2)
                   | Inr total_size \<Rightarrow>
                       (case read_loop filename total_size (chunks response)
                               (stream_error response) w2 [] 0 of
                          (Some e, w3, data_buffer) \<Rightarrow> (Inl e, w3)
                        | (None, w3, data_buffer) \<Rightarrow>
                            (let w4 = print w3 [];
                                 data = data_buffer;
                                 actual_hash = hexdigest (sha256_digest data)
                             in if lower expected_hash \<noteq> actual_hash
                                then (Inl (SystemExit (''Hash mismatch for '' @ filename)), w4)
                                else (Inr data,
                                      w4\<lparr>total_bytes := total_bytes w4 + length data\<rparr>))))))"

section \<open>MSIParser\<close>

text \<open>\<open>data.find(sub, start)\<close> for \<open>start \<ge> 0\<close>: the lowest offset from \<open>start\<close> on
  at which \<open>sub\<close> occurs, \<open>None\<close> for Python's \<open>-1\<close>. \<open>find_from sub rest k\<close> searches
  the rest of the buffer that begins at offset \<open>k\<close>.\<close>

fun find_from :: "bytes \<Rightarrow> bytes \<Rightarrow> nat \<Rightarrow> nat option" where
  "find_from sub [] k = (if sub = [] then Some k else None)"
| "find_from sub (b # bs) k =
     (if startswith (b # bs) sub then Some k else find_from sub bs (Suc k))"

definition bytes_find :: "bytes \<Rightarrow> bytes \<Rightarrow> nat \<Rightarrow> nat option" where
  "bytes_find data sub start =
     (if length data < start then None else find_from sub (drop start data) start)"

text \<open>\<open>data.decode("ascii")\<close>: a byte above 127 raises.\<close>

definition decode_ascii :: "bytes \<Rightarrow> py_error + string" where
  "decode_ascii data =
     (if list_all (\<lambda>b. (of_char b :: nat) < 128) data then Inr data else Inl UnicodeDecodeError)"

text \<open>The \<open>while True\<close> loop of \<open>extract_cab_files\<close>, from the current \<open>index\<close> and
  the names collected so far.\<close>

function extract_cab_loop :: "bytes \<Rightarrow> nat \<Rightarrow> string list \<Rightarrow> py_error + string list" where
  "extract_cab_loop msi_data index cab_files =
     (case bytes_find msi_data ''.cab'' (index + 4) of
        None \<Rightarrow> Inr cab_files
      | Some index' \<Rightarrow>
          (case decode_ascii (slice msi_data (int index' - 32) (int index' + 4)) of
             Inl e \<Rightarrow> Inl e
           | Inr cab_name \<Rightarrow> extract_cab_loop msi_data index' (cab_files @ [cab_name])))"
  by pat_completeness auto
termination
proof (relation "measure (\<lambda>(msi_data, index, cab_files). length msi_data - index)")
  show "wf (measure (\<lambda>(msi_data, index, cab_files). length msi_data - index))"
    by simp
next
  fix msi_data :: bytes and index :: nat and cab_files :: "string list"
    and index' :: nat and cab_name :: string
  assume found: "bytes_find msi_data ''.cab'' (index + 4) = Some index'"
  have later: "k \<le> j \<and> j < k + length bs" if "find_from ''.cab'' bs k = Some j" for bs k j
    using that
  proof (induction bs arbitrary: k)
    case Nil
    then show ?case by simp
  next
    case (Cons b bs)
    show ?case
    proof (cases "startswith (b # bs) ''.cab''")
      case True
      with Cons.prems show ?thesis by simp
    next
      case False
      with Cons.prems have "find_from ''.cab'' bs (Suc k) = Some j" by simp
      from Cons.IH [OF this] show ?thesis by simp
    qed
  qed
  from found have "find_from ''.cab'' (drop (index + 4) msi_data) (index + 4) = Some index'"
    and "index + 4 \<le> length msi_data"
    by (auto simp: bytes_find_def split: if_splits)
  with later have "index + 4 \<le> index'" and "index' < length msi_data"
    by fastforce+
  then show "((msi_data, index', cab_files @ [cab_name]), (msi_data, index, cab_files))
      \<in> measure (\<lambda>(msi_data, index, cab_files). length msi_data - index)"
    by simp
qed

definition extract_cab_files :: "bytes \<Rightarrow> py_error + string list" where
  "extract_cab_files msi_data = extract_cab_loop msi_data 0 []"

section \<open>VSInstaller: versions\<close>

text \<open>The first loop of \<open>parse_available_versions\<close>: the packages of the manifest,
  grouped by lower-cased identifier.\<close>

definition index_packages :: "package list \<Rightarrow> package_index" where
  "index_packages vs_manifest_packages =
     fold (\<lambda>package packages. setdefault_append packages (lower (pkg_id package)) package)
       vs_manifest_packages []"

text \<open>The second loop, over \<open>packages.items()\<close>. \<open>version[0]\<close> raises \<open>IndexError\<close> on
  an empty string; \<open>split\<close> gives at least one segment, so \<open>[-1]\<close> is its last.\<close>

fun scan_versions :: "package_index \<Rightarrow> versions \<Rightarrow> versions \<Rightarrow> py_error + versions \<times> versions" where
  "scan_versions [] msvc_versions sdk_versions = Inr (msvc_versions, sdk_versions)"
| "scan_versions ((package_id, package_list) # items) msvc_versions sdk_versions =
     (if startswith package_id ''microsoft.vc.''
         \<and> endswith package_id ''.tools.hostx64.targetx64.base''
      then
        (let version = join ''.'' (slice (split package_id (CHR ''.'')) 2 4)
         in if version = [] then Inl IndexError
            else if isnumeric [hd version]
            then scan_versions items (AList.update version package_id msvc_versions) sdk_versions
            else scan_versions items msvc_versions sdk_versions)
      else if startswith package_id ''microsoft.visualstudio.component.windows10sdk.''
              \<or> startswith package_id ''microsoft.visualstudio.component.windows11sdk.''
      then
        (let version = last (split package_id (CHR ''.''))
         in if isnumeric version
            then scan_versions items msvc_versions (AList.update version package_id sdk_versions)
            else scan_versions items msvc_versions sdk_versions)
      else scan_versions items msvc_versions sdk_versions)"

definition parse_available_versions ::
  "package list \<Rightarrow> py_error + package_index \<times> versions \<times> versions" where
  "parse_available_versions vs_manifest_packages =
     (let packages = index_packages vs_manifest_packages
      in case scan_versions packages [] [] of
           Inl e \<Rightarrow> Inl e
         | Inr (msvc_versions, sdk_versions) \<Rightarrow> Inr (packages, msvc_versions, sdk_versions))"


section \<open>VSInstaller: the toolchain packages\<close>

text \<open>The redistributable of one target (the end of the loop body over
  \<open>self.targets\<close>): the conventionally named package when the index has it, and
  otherwise the first dependency ending in \<open>.base\<close> of the package
  \<open>microsoft.visualcpp.crt.redist.{target}{redist_suffix}\<close>.\<close>

definition redist_package :: "package_index \<Rightarrow> string \<Rightarrow> string \<Rightarrow> py_error + string" where
  "redist_package packages msvc_version' target =
     (let redist_suffix = (if target = ''arm'' then ''.onecore.desktop'' else []);
          redist_pkg = ''microsoft.vc.'' @ msvc_version' @ ''.crt.redist.'' @ target
                         @ redist_suffix @ ''.base''
      in if map_of packages redist_pkg = None then
           (let redist_name = ''microsoft.visualcpp.crt.redist.'' @ target @ redist_suffix
            in case getitem packages redist_name of
                 Inl e \<Rightarrow> Inl e
               | Inr package_list \<Rightarrow>
                   (case find_first_item package_list (\<lambda>x. True) of
                      None \<Rightarrow> Inl TypeError
                    | Some redist \<Rightarrow>
                        (case dependencies redist of
                           None \<Rightarrow> Inl (KeyError ''dependencies'')
                         | Some deps \<Rightarrow>
                             (case find_first_item deps (\<lambda>dep. endswith dep ''.base'') of
                                None \<Rightarrow> Inl AttributeError
                              | Some dep \<Rightarrow> Inr (lower dep)))))
         else Inr redist_pkg)"

text \<open>The loop over \<open>self.targets\<close> that extends \<open>msvc_packages\<close>.\<close>

fun target_packages ::
  "package_index \<Rightarrow> string \<Rightarrow> string \<Rightarrow> string list \<Rightarrow> string list \<Rightarrow> py_error + string list" where
  "target_packages packages host' msvc_version' [] msvc_packages = Inr msvc_packages"
| "target_packages packages host' msvc_version' (target # rest) msvc_packages =
     (let msvc_packages1 = msvc_packages @
            [''microsoft.vc.'' @ msvc_version' @ ''.tools.host'' @ host' @ ''.target'' @ target
               @ ''.base'',
             ''microsoft.vc.'' @ msvc_version' @ ''.tools.host'' @ host' @ ''.target'' @ target
               @ ''.res.base'',
             ''microsoft.vc.'' @ msvc_version' @ ''.crt.'' @ target @ ''.desktop.base'',
             ''microsoft.vc.'' @ msvc_version' @ ''.crt.'' @ target @ ''.store.base'',
             ''microsoft.vc.'' @ msvc_version' @ ''.premium.tools.host'' @ host' @ ''.target''
               @ target @ ''.base'',
             ''microsoft.vc.'' @ msvc_version' @ ''.pgo.'' @ target @ ''.base''];
          msvc_packages2 =
            (if target \<in> set [''x86'', ''x64'']
             then msvc_packages1 @ [''microsoft.vc.'' @ msvc_version' @ ''.asan.'' @ target
                                      @ ''.base'']
             else msvc_packages1)
      in case redist_package packages msvc_version' target of
           Inl e \<Rightarrow> Inl e
         | Inr redist_pkg \<Rightarrow>
             target_packages packages host' msvc_version' rest (msvc_packages2 @ [redist_pkg]))"

text \<open>
  The archive is read by \<open>zipfile\<close> and written through \<open>pathlib\<close> to the file system
  under \<open>OUTPUT_DIR\<close>, which holds directories as well as files. These are parameters,
  the fields of \<open>zip_io\<close>:
  \<^item> \<open>open_zip archive\<close>: \<open>zipfile.ZipFile\<close> on the downloaded file raises, or gives the
    names of \<open>namelist()\<close>, each with what \<open>zip_file.read(name)\<close> gives (the bytes, or
    an exception);
  \<^item> \<open>make_parent w name\<close>: \<open>output_path.parent.mkdir(parents=True, exist_ok=True)\<close> for
    the output path of the entry \<open>name\<close>, that is its path below \<open>Contents\<close> put under
    \<open>OUTPUT_DIR\<close>: the exception it raises, if any, and the world after it;
  \<^item> \<open>write_bytes w name data\<close>: \<open>output_path.write_bytes(data)\<close> for the same path,
    likewise.
  The loop over the names is the code's: only the names that start with \<open>Contents/\<close>
  are written, in order, and the first exception ends the loop with what was written
  before it left in place.
\<close>

record zip_io =
  open_zip :: "bytes \<Rightarrow> py_error + (string \<times> (py_error + bytes)) list"
  make_parent :: "world \<Rightarrow> string \<Rightarrow> py_error option \<times> world"
  write_bytes :: "world \<Rightarrow> string \<Rightarrow> bytes \<Rightarrow> py_error option \<times> world"

fun write_entries ::
  "zip_io \<Rightarrow> (string \<times> (py_error + bytes)) list \<Rightarrow> world \<Rightarrow> py_error option \<times> world" where
  "write_entries io [] w = (None, w)"
| "write_entries io ((name, contents) # rest) w =
     (if startswith name ''Contents/'' then
        (case make_parent io w name of
           (Some e, w1) \<Rightarrow> (Some e, w1)
         | (None, w1) \<Rightarrow>
             (case contents of
                Inl e \<Rightarrow> (Some e, w1)
              | Inr data \<Rightarrow>
                  (case write_bytes io w1 name data of
                     (Some e, w2) \<Rightarrow> (Some e, w2)
                   | (None, w2) \<Rightarrow> write_entries io rest w2)))
      else write_entries io rest w)"

definition extract_zip :: "zip_io \<Rightarrow> world \<Rightarrow> string \<Rightarrow> py_error option \<times> world" where
  "extract_zip io w filename =
     (case files w filename of
        None \<Rightarrow> (Some FileNotFoundError, w)
      | Some archive \<Rightarrow>
          (case open_zip io archive of
             Inl e \<Rightarrow> (Some e, w)
           | Inr entries \<Rightarrow> write_entries io entries w))"

text \<open>The loop over the payloads of one package.\<close>

fun payload_loop ::
  "(bytes \<Rightarrow> bytes) \<Rightarrow> zip_io \<Rightarrow> payload list \<Rightarrow> world \<Rightarrow> py_error option \<times> world" where
  "payload_loop sha256_digest io [] w = (None, w)"
| "payload_loop sha256_digest io (p # ps) w =
     (let filename = fileName p
      in case download_with_progress sha256_digest w (url p) (sha256 p) filename of
           (Inl e, w1) \<Rightarrow> (Some e, w1)
         | (Inr data, w1) \<Rightarrow>
             (case extract_zip io w1 filename of
                (Some e, w2) \<Rightarrow> (Some e, w2)
              | (None, w2) \<Rightarrow> payload_loop sha256_digest io ps w2))"

text \<open>The loop over \<open>sorted(msvc_packages)\<close> that downloads and extracts.\<close>

fun package_loop ::
  "(bytes \<Rightarrow> bytes) \<Rightarrow> zip_io \<Rightarrow> package_index \<Rightarrow> string list \<Rightarrow> world
     \<Rightarrow> py_error option \<times> world" where
  "package_loop sha256_digest io packages [] w = (None, w)"
| "package_loop sha256_digest io packages (package_name # rest) w =
     (case map_of packages package_name of
        None \<Rightarrow>
          package_loop sha256_digest io packages rest
            (print w (CHR 0x0D # package_name @ '' ... !!! MISSING !!!''))
      | Some package_list \<Rightarrow>
          (case find_first_item package_list
                  (\<lambda>p. language p = None \<or> language p = Some ''en-US'') of
             None \<Rightarrow> (Some TypeError, w)
           | Some package \<Rightarrow>
               (case payloads package of
                  None \<Rightarrow> (Some (KeyError ''payloads''), w)
                | Some ps \<Rightarrow>
                    (case payload_loop sha256_digest io ps w of
                       (Some e, w1) \<Rightarrow> (Some e, w1)
                     | (None, w1) \<Rightarrow> package_loop sha256_digest io packages rest w1))))"

definition download_msvc ::
  "(bytes \<Rightarrow> bytes) \<Rightarrow> zip_io \<Rightarrow> vs_installer \<Rightarrow> package_index \<Rightarrow> string \<Rightarrow> world
     \<Rightarrow> py_error option \<times> world" where
  "download_msvc sha256_digest io self packages msvc_version' w =
     (let w1 = print w ''Downloading MSVC packages...'';
          msvc_packages =
            [''microsoft.visualcpp.dia.sdk'',
             ''microsoft.vc.'' @ msvc_version' @ ''.crt.headers.base'',
             ''microsoft.vc.'' @ msvc_version' @ ''.crt.source.base'',
             ''microsoft.vc.'' @ msvc_version' @ ''.asan.headers.base'',
             ''microsoft.vc.'' @ msvc_version' @ ''.pgo.headers.base'']
      in case target_packages packages (host self) msvc_version' (targets self) msvc_packages of
           Inl e \<Rightarrow> (Some e, w1)
         | Inr msvc_packages' \<Rightarrow>
             package_loop sha256_digest io packages (sort msvc_packages') w1)"

section \<open>VSInstaller: the SDK packages\<close>

text \<open>The loop over \<open>sorted(sdk_packages)\<close> that downloads the installer packages and
  collects the names of their cabinets. It returns \<open>msi_files\<close> and \<open>cab_files\<close>.\<close>

fun msi_loop ::
  "(bytes \<Rightarrow> bytes) \<Rightarrow> payload list \<Rightarrow> string list \<Rightarrow> string list \<Rightarrow> string list \<Rightarrow> world
     \<Rightarrow> (py_error + string list \<times> string list) \<times> world" where
  "msi_loop sha256_digest sdk_payloads [] msi_files cab_files w = (Inr (msi_files, cab_files), w)"
| "msi_loop sha256_digest sdk_payloads (package_name # rest) msi_files cab_files w =
     (case find_first_item sdk_payloads
             (\<lambda>p. fileName p = ''Installers'' @ [CHR 0x5C] @ package_name) of
        None \<Rightarrow> msi_loop sha256_digest sdk_payloads rest msi_files cab_files w
      | Some p \<Rightarrow>
          (let msi_files1 = msi_files @ [package_name]
           in case download_with_progress sha256_digest w (url p) (sha256 p) package_name of
                (Inl e, w1) \<Rightarrow> (Inl e, w1)
              | (Inr data, w1) \<Rightarrow>
                  (case extract_cab_files data of
                     Inl e \<Rightarrow> (Inl e, w1)
                   | Inr names \<Rightarrow>
                       msi_loop sha256_digest sdk_payloads rest msi_files1 (cab_files @ names) w1)))"

text \<open>The loop over \<open>cab_files\<close>: \<open>payload["url"]\<close> on \<open>None\<close> raises \<open>TypeError\<close>.\<close>

fun cab_loop ::
  "(bytes \<Rightarrow> bytes) \<Rightarrow> payload list \<Rightarrow> string list \<Rightarrow> world \<Rightarrow> py_error option \<times> world" where
  "cab_loop sha256_digest sdk_payloads [] w = (None, w)"
| "cab_loop sha256_digest sdk_payloads (cab_name # rest) w =
     (case find_first_item sdk_payloads
             (\<lambda>p. fileName p = ''Installers'' @ [CHR 0x5C] @ cab_name) of
        None \<Rightarrow> (Some TypeError, w)
      | Some p \<Rightarrow>
          (case download_with_progress sha256_digest w (url p) (sha256 p) cab_name of
             (Inl e, w1) \<Rightarrow> (Some e, w1)
           | (Inr data, w1) \<Rightarrow> cab_loop sha256_digest sdk_payloads rest w1))"

text \<open>
  The loop over \<open>msi_files\<close>. The installer-package expander is external: \<open>msiexec\<close>, a
  parameter, gives the world after \<open>msiexec.exe /a file\<close>, with the error of
  \<open>check_call\<close> when the exit code is not zero. The copy of the package it leaves in
  the output directory is then removed by \<open>unlink\<close>, which raises when there is no
  such file.
\<close>

fun install_loop ::
  "(world \<Rightarrow> string \<Rightarrow> py_error option \<times> world) \<Rightarrow> string list \<Rightarrow> world
     \<Rightarrow> py_error option \<times> world" where
  "install_loop msiexec [] w = (None, w)"
| "install_loop msiexec (msi_file # rest) w =
     (case msiexec w msi_file of
        (Some e, w1) \<Rightarrow> (Some e, w1)
      | (None, w1) \<Rightarrow>
          (case outputs w1 msi_file of
             None \<Rightarrow> (Some FileNotFoundError, w1)
           | Some Directory \<Rightarrow> (Some OSError, w1)
           | Some (File contents) \<Rightarrow>
               install_loop msiexec rest (w1\<lparr>outputs := (outputs w1)(msi_file := None)\<rparr>)))"

text \<open>\<open>packages[key][0]\<close>. (\<open>download_sdk\<close> also creates a temporary directory
  under \<open>DOWNLOADS_DIR\<close>, which it never uses; it is left out.)\<close>

definition first_package :: "package_index \<Rightarrow> string \<Rightarrow> py_error + package" where
  "first_package packages key =
     (case getitem packages key of
        Inl e \<Rightarrow> Inl e
      | Inr package_list \<Rightarrow> (case package_list of [] \<Rightarrow> Inl IndexError | p # _ \<Rightarrow> Inr p))"

definition download_sdk ::
  "(bytes \<Rightarrow> bytes) \<Rightarrow> (world \<Rightarrow> string \<Rightarrow> py_error option \<times> world) \<Rightarrow> vs_installer
     \<Rightarrow> package_index \<Rightarrow> string \<Rightarrow> world \<Rightarrow> py_error option \<times> world" where
  "download_sdk sha256_digest msiexec self packages sdk_package_id w =
     (let w1 = print w ''Downloading Windows SDK packages...'';
          sdk_packages =
            [''Windows SDK for Windows Store Apps Tools-x86_en-us.msi'',
             ''Windows SDK for Windows Store Apps Headers-x86_en-us.msi'',
             ''Windows SDK for Windows Store Apps Headers OnecoreUap-x86_en-us.msi'',
             ''Windows SDK for Windows Store Apps Libs-x86_en-us.msi'',
             ''Universal CRT Headers Libraries and Sources-x86_en-us.msi'']
            @ concat (map (\<lambda>target.
                 [''Windows SDK Desktop Headers '' @ target @ ''-x86_en-us.msi'',
                  ''Windows SDK OnecoreUap Headers '' @ target @ ''-x86_en-us.msi'']) ALL_TARGETS)
            @ map (\<lambda>target. ''Windows SDK Desktop Libs '' @ target @ ''-x86_en-us.msi'')
                (targets self)
      in case first_package packages sdk_package_id of
           Inl e \<Rightarrow> (Some e, w1)
         | Inr sdk_package0 \<Rightarrow>
             (case dependencies sdk_package0 of
                None \<Rightarrow> (Some (KeyError ''dependencies''), w1)
              | Some deps \<Rightarrow>
                  (case find_first_item deps (\<lambda>x. True) of
                     None \<Rightarrow> (Some AttributeError, w1)
                   | Some dep \<Rightarrow>
                       (case first_package packages (lower dep) of
                          Inl e \<Rightarrow> (Some e, w1)
                        | Inr sdk_package \<Rightarrow>
                            (case payloads sdk_package of
                               None \<Rightarrow> (Some (KeyError ''payloads''), w1)
                             | Some sdk_payloads \<Rightarrow>
                                 (case msi_loop sha256_digest sdk_payloads (sort sdk_packages)
                                         [] [] w1 of
                                    (Inl e, w2) \<Rightarrow> (Some e, w2)
                                  | (Inr (msi_files, cab_files), w2) \<Rightarrow>
                                      (case cab_loop sha256_digest sdk_payloads cab_files w2 of
                                         (Some e, w3) \<Rightarrow> (Some e, w3)
                                       | (None, w3) \<Rightarrow>
                                           install_loop msiexec msi_files
                                             (print w3 ''Installing MSI files...''))))))))"

section \<open>The version pattern of the specification\<close>

text \<open>
  The toolchain-version pattern in the words of the specification, for comparison with
  \<open>parse_available_versions\<close>: the identifier is
  \<open>{tool-ns}.{major}.{minor}.tools.host{X}.target{X}.base\<close> for an architecture \<open>X\<close>,
  the namespace being \<open>microsoft.vc\<close>, and the key \<open>{major}.{minor}\<close> is kept when both
  segments are purely numeric.
\<close>

definition spec_toolchain_version_key :: "string \<Rightarrow> string option" where
  "spec_toolchain_version_key package_id =
     (case split package_id (CHR ''.'') of
        [ns1, ns2, major, minor, tools_seg, host_seg, target_seg, base_seg] \<Rightarrow>
          if ns1 = ''microsoft'' \<and> ns2 = ''vc'' \<and> tools_seg = ''tools'' \<and> base_seg = ''base''
             \<and> (\<exists>x\<in>set ALL_TARGETS. host_seg = ''host'' @ x \<and> target_seg = ''target'' @ x)
             \<and> isnumeric major \<and> isnumeric minor
          then Some (major @ ''.'' @ minor) else None
      | _ \<Rightarrow> None)"

section \<open>Example inputs\<close>

text \<open>A world with empty directories and no reachable server.\<close>

definition offline_world :: world where
  "offline_world =
     \<lparr>files = Map.empty, outputs = Map.empty, network = (\<lambda>u. Inl URLError),
      requests = [], console = [], total_bytes = 0\<rparr>"

text \<open>A command line without \<open>--show-versions\<close>, \<open>--msvc-version\<close> and
  \<open>--sdk-version\<close>.\<close>

definition default_args :: args where
  "default_args = \<lparr>show_versions = False, msvc_version = None, sdk_version = None\<rparr>"

text \<open>A stand-in for \<open>hashlib.sha256\<close> in the examples (the theorems hold for every
  digest function): the first byte of the data.\<close>

definition toy_digest :: "bytes \<Rightarrow> bytes" where
  "toy_digest data = take 1 data"

text \<open>A cache that holds \<open>pkg.zip\<close>, whose toy digest is \<open>4d\<close>; and a server that
  sends the four bytes \<open>abcd\<close>, toy digest \<open>61\<close>, in two chunks.\<close>

definition cached_world :: world where
  "cached_world = offline_world\<lparr>files := [''pkg.zip'' \<mapsto> ''MZ'']\<rparr>"

definition serving_world :: world where
  "serving_world =
     offline_world\<lparr>network := (\<lambda>u.
       if u = ''https://host/pkg.zip''
       then Inr \<lparr>content_length = Inr 4, chunks = [''ab'', ''cd''], stream_error = None\<rparr>
       else Inl URLError)\<rparr>"

text \<open>The same server, with a cache that holds a \<open>pkg.zip\<close> of another digest.\<close>

definition stale_world :: world where
  "stale_world = serving_world\<lparr>files := [''pkg.zip'' \<mapsto> ''MZ'']\<rparr>"

text \<open>A package without payloads and dependencies, and two indexes: one that has the
  redistributables of \<open>arm\<close> and \<open>x64\<close> under their conventional names, one that has
  the compiler tools only.\<close>

definition plain_package :: "string \<Rightarrow> package" where
  "plain_package i = \<lparr>pkg_id = i, language = None, payloads = Some [], dependencies = None\<rparr>"

definition redist_index :: package_index where
  "redist_index =
     [(''microsoft.vc.14.39.17.9.crt.redist.arm.onecore.desktop.base'',
       [plain_package ''Microsoft.VC.14.39.17.9.CRT.Redist.ARM.OneCore.Desktop.base'']),
      (''microsoft.vc.14.39.17.9.crt.redist.x64.base'',
       [plain_package ''Microsoft.VC.14.39.17.9.CRT.Redist.X64.base''])]"

definition tools_only_index :: package_index where
  "tools_only_index =
     [(''microsoft.vc.14.39.17.9.tools.hostx64.targetx64.base'',
       [plain_package ''Microsoft.VC.14.39.17.9.Tools.HostX64.TargetX64.base''])]"

text \<open>An index without the conventionally named redistributables: it has the two
  packages that the lookup falls back to, each with its dependencies.\<close>

definition fallback_index :: package_index where
  "fallback_index =
     [(''microsoft.visualcpp.crt.redist.arm.onecore.desktop'',
       [\<lparr>pkg_id = ''Microsoft.VisualCpp.CRT.Redist.ARM.OneCore.Desktop'', language = None,
         payloads = None,
         dependencies = Some [''Microsoft.VisualCpp.Redist.14'',
                              ''Microsoft.VC.14.38.17.8.CRT.Redist.ARM.base'']\<rparr>]),
      (''microsoft.visualcpp.crt.redist.x64'',
       [\<lparr>pkg_id = ''Microsoft.VisualCpp.CRT.Redist.X64'', language = None,
         payloads = None,
         dependencies = Some [''Microsoft.VC.14.38.17.8.CRT.Redist.X64.OneCore.Desktop.base'']\<rparr>])]"

definition x64_installer :: vs_installer where
  "x64_installer = \<lparr>args = default_args, host = ''x64'', targets = [''x64'']\<rparr>"

text \<open>An installer package of 44 bytes that names one cabinet, an SDK whose payload
  list has that installer package and not the cabinet, and the server of the package.\<close>

definition msi_bytes :: bytes where
  "msi_bytes = ''MSI:'' @ ''a0b1c2d3e4f5a6b7c8d9e0f1a2b3c4d5.cab'' @ '':end''"

definition sdk_index :: "(bytes \<Rightarrow> bytes) \<Rightarrow> package_index" where
  "sdk_index sha256_digest =
     [(''microsoft.visualstudio.component.windows11sdk.22621'',
       [\<lparr>pkg_id = ''Microsoft.VisualStudio.Component.Windows11SDK.22621'', language = None,
         payloads = None, dependencies = Some [''Win11SDK_10.0.22621'']\<rparr>]),
      (''win11sdk_10.0.22621'',
       [\<lparr>pkg_id = ''Win11SDK_10.0.22621'', language = None,
         payloads = Some
           [\<lparr>fileName = ''Installers'' @ [CHR 0x5C]
                           @ ''Universal CRT Headers Libraries and Sources-x86_en-us.msi'',
             url = ''https://host/ucrt.msi'',
             sha256 = hexdigest (sha256_digest msi_bytes)\<rparr>],
         dependencies = None\<rparr>])]"

definition msi_world :: world where
  "msi_world =
     offline_world\<lparr>network := (\<lambda>u.
       if u = ''https://host/ucrt.msi''
       then Inr \<lparr>content_length = Inr 44, chunks = [msi_bytes], stream_error = None\<rparr>
       else Inl URLError)\<rparr>"

text \<open>A manifest with the compiler tools for two architectures and one SDK.\<close>

definition small_manifest :: "package list" where
  "small_manifest =
     [plain_package ''Microsoft.VC.14.39.17.9.Tools.HostX64.TargetX64.base'',
      plain_package ''Microsoft.VC.14.39.17.9.Tools.HostX86.TargetX86.base'',
      plain_package ''Microsoft.VisualStudio.Component.Windows11SDK.22621'']"

section \<open>Theorems\<close>

text \<open>
  C10. Host detection always answers with one of the three host names: with
  \<open>machine\<close> the lower-cased machine string, \<open>amd64\<close> gives \<open>x64\<close>, \<open>arm64\<close> gives
  \<open>arm64\<close>, \<open>x86\<close> gives \<open>x86\<close>, and every other string (such as \<open>x86_64\<close>) gives the
  default \<open>x64\<close>.
\<close>

theorem detect_host_total:
  "detect_host m \<in> set ALL_HOSTS
   \<and> (lower m = ''amd64'' \<longrightarrow> detect_host m = ''x64'')
   \<and> (lower m = ''arm64'' \<longrightarrow> detect_host m = ''arm64'')
   \<and> (lower m = ''x86'' \<longrightarrow> detect_host m = ''x86'')
   \<and> (lower m \<notin> {''amd64'', ''arm64'', ''x86''} \<longrightarrow> detect_host m = ''x64'')"
  by (simp add: detect_host_def ALL_HOSTS_def Let_def)

theorem detect_host_total_witness:
  "detect_host ''AMD64'' = ''x64'' \<and> detect_host ''arm64'' = ''arm64''
   \<and> detect_host ''x86'' = ''x86'' \<and> detect_host ''x86_64'' = ''x64''"
  using detect_host_total [of "''AMD64''"] detect_host_total [of "''arm64''"]
    detect_host_total [of "''x86''"] detect_host_total [of "''x86_64''"]
  by (simp add: lower_def lower_chr_def Let_def)

subsection \<open>Version selection\<close>





subsection \<open>The fetcher\<close>

lemma hex_digit_lower:
  "n < 16 \<Longrightarrow> lower_chr (''0123456789abcdef'' ! n) = ''0123456789abcdef'' ! n"
proof -
  have "list_all (\<lambda>n. lower_chr (''0123456789abcdef'' ! n) = ''0123456789abcdef'' ! n) [0..<16]"
    by code_simp
  then have "\<forall>n\<in>set [0..<16]. lower_chr (''0123456789abcdef'' ! n) = ''0123456789abcdef'' ! n"
    by (simp only: list_all_iff)
  moreover assume "n < 16"
  ultimately show ?thesis by simp
qed

lemma hexdigest_lower: "lower (hexdigest d) = hexdigest d"
proof -
  have b: "(of_char c :: nat) div 16 < 16" "(of_char c :: nat) mod 16 < 16" for c :: char
  proof -
    have "(of_char c :: nat) < 256" by (rule nat_of_char_less_256) 
    then show "(of_char c :: nat) div 16 < 16" by presburger
    show "(of_char c :: nat) mod 16 < 16" by simp
  qed
  show ?thesis
    unfolding lower_def hexdigest_def
    by (induction d) (simp_all add: hex_digit_lower b del: nth_Cons_numeral)
qed

lemma read_loop_frame:
  "read_loop fn ts cs e w buf d = (r, w', buf') \<Longrightarrow>
     total_bytes w' = total_bytes w \<and> requests w' = requests w \<and> network w' = network w
     \<and> outputs w' = outputs w \<and> (\<forall>g. g \<noteq> fn \<longrightarrow> files w' g = files w g)"
proof (induction cs arbitrary: w buf d)
  case Nil
  then show ?case by simp
next
  case (Cons c cs)
  show ?case
  proof (cases "c = [] \<or> ts = 0")
    case True
    with Cons.prems show ?thesis
      by (auto simp: file_write_def Let_def split: if_splits)
  next
    case False
    with Cons.prems have
      "read_loop fn ts cs e
         (write_console (file_write w fn c)
            (CHR 0x0D # fn @ '' ... '' @ str_int (int (d + length c) * 100 div ts) @ ''%''))
         (buf @ c) (d + length c) = (r, w', buf')"
      by (simp add: Let_def)
    from Cons.IH [OF this] show ?thesis
      by (simp add: file_write_def write_console_def)
  qed
qed

lemma read_loop_file:
  "read_loop fn ts cs e w buf d = (r, w', buf') \<Longrightarrow> files w fn = Some f \<Longrightarrow>
     \<exists>added. buf' = buf @ added \<and> files w' fn = Some (f @ added)"
proof (induction cs arbitrary: w buf d f)
  case Nil
  then show ?case by simp
next
  case (Cons c cs)
  show ?case
  proof (cases "c = [] \<or> ts = 0")
    case True
    with Cons.prems show ?thesis
      by (auto simp: file_write_def Let_def split: if_splits)
  next
    case False
    let ?w = "write_console (file_write w fn c)
            (CHR 0x0D # fn @ '' ... '' @ str_int (int (d + length c) * 100 div ts) @ ''%'')"
    from False Cons.prems have
      "read_loop fn ts cs e ?w (buf @ c) (d + length c) = (r, w', buf')"
      by (simp add: Let_def)
    moreover have "files ?w fn = Some (f @ c)"
      using Cons.prems(2) by (simp add: file_write_def write_console_def)
    ultimately obtain added where "buf' = (buf @ c) @ added" "files w' fn = Some ((f @ c) @ added)"
      using Cons.IH by blast
    then show ?thesis by simp
  qed
qed


lemma download_hit:
  assumes "files w filename = Some data"
    and "hexdigest (sha256_digest data) = lower expected_hash"
  shows "download_with_progress sha256_digest w u expected_hash filename =
           (Inr data, print w (CHR 0x0D # filename @ '' ... OK''))"
  using assms by (simp add: download_with_progress_def)

lemma download_miss:
  assumes miss: "\<forall>data. files w filename = Some data \<longrightarrow>
                   hexdigest (sha256_digest data) \<noteq> lower expected_hash"
    and run: "download_with_progress sha256_digest w u expected_hash filename = (r, w')"
  shows "requests w' = requests w @ [u]
       \<and> (\<exists>received. files w' filename = Some received
            \<and> (\<forall>data. r = Inr data \<longrightarrow> data = received
                  \<and> hexdigest (sha256_digest data) = lower expected_hash
                  \<and> total_bytes w' = total_bytes w + length data))
       \<and> (\<forall>e. r = Inl e \<longrightarrow> total_bytes w' = total_bytes w)"
proof -
  let ?w2 = "w\<lparr>files := (files w)(filename \<mapsto> []), requests := requests w @ [u]\<rparr>"
  have nohit: "(case files w filename of None \<Rightarrow> None
          | Some data \<Rightarrow> if hexdigest (sha256_digest data) = lower expected_hash
                         then Some data else None) = None"
    using miss by (auto split: option.splits)
  show ?thesis
  proof (cases "network w u")
    case (Inl e)
    with run nohit show ?thesis
      by (auto simp: download_with_progress_def)
  next
    case (Inr response)
    show ?thesis
    proof (cases "content_length response")
      case (Inl e)
      with Inr run nohit show ?thesis
        by (auto simp: download_with_progress_def)
    next
      case cl: (Inr total_size)
      obtain res w3 buf where loop:
        "read_loop filename total_size (chunks response) (stream_error response) ?w2 [] 0
           = (res, w3, buf)"
        by (metis prod_cases3)
      from read_loop_frame [OF loop] have fr: "total_bytes w3 = total_bytes w"
        "requests w3 = requests w @ [u]" by simp_all
      from read_loop_file [OF loop, of "[]"] have fl: "files w3 filename = Some buf"
        by simp
      show ?thesis
      proof (cases res)
        case (Some e)
        with run nohit Inr cl loop have "r = Inl e" "w' = w3"
          by (auto simp: download_with_progress_def Let_def)
        with fr fl show ?thesis by simp
      next
        case None
        show ?thesis
        proof (cases "lower expected_hash \<noteq> hexdigest (sha256_digest buf)")
          case True
          with None run nohit Inr cl loop have
            "r = Inl (SystemExit (''Hash mismatch for '' @ filename))" "w' = print w3 []"
            by (auto simp: download_with_progress_def Let_def)
          with fr fl show ?thesis by (simp add: print_def write_console_def)
        next
          case False
          with None run nohit Inr cl loop have
            "r = Inr buf" "w' = (print w3 [])\<lparr>total_bytes := total_bytes (print w3 []) + length buf\<rparr>"
            by (auto simp: download_with_progress_def Let_def)
          with fr fl False show ?thesis by (simp add: print_def write_console_def)
        qed
      qed
    qed
  qed
qed


lemma read_loop_completes:
  "read_loop fn ts cs e w buf d = (res, w', buf') \<Longrightarrow>
   (ts = 0 \<longrightarrow> takeWhile (\<lambda>c. c \<noteq> []) cs = []) \<Longrightarrow> (e = None \<or> [] \<in> set cs) \<Longrightarrow>
   res = None \<and> buf' = buf @ concat (takeWhile (\<lambda>c. c \<noteq> []) cs)"
proof (induction cs arbitrary: w buf d)
  case Nil
  then show ?case by simp
next
  case (Cons c cs)
  show ?case
  proof (cases "c = []")
    case True
    with Cons.prems show ?thesis by simp
  next
    case False
    with Cons.prems(2) have ts: "ts \<noteq> 0" by auto
    from False ts Cons.prems(1) have
      "read_loop fn ts cs e
         (write_console (file_write w fn c)
            (CHR 0x0D # fn @ '' ... '' @ str_int (int (d + length c) * 100 div ts) @ ''%''))
         (buf @ c) (d + length c) = (res, w', buf')"
      by (simp add: Let_def)
    from Cons.IH [OF this] ts False Cons.prems(3) show ?thesis by auto
  qed
qed

lemma download_miss_fails:
  assumes miss: "\<forall>data. files w filename = Some data \<longrightarrow>
                   hexdigest (sha256_digest data) \<noteq> lower expected_hash"
    and net: "network w u = Inl e
              \<or> (\<exists>response. network w u = Inr response \<and> content_length response = Inl e)"
  shows "download_with_progress sha256_digest w u expected_hash filename
           = (Inl e, w\<lparr>files := (files w)(filename \<mapsto> []), requests := requests w @ [u]\<rparr>)"
proof -
  have nohit: "(case files w filename of None \<Rightarrow> None
          | Some data \<Rightarrow> if hexdigest (sha256_digest data) = lower expected_hash
                         then Some data else None) = None"
    using miss by (auto split: option.splits)
  from net show ?thesis
    by (auto simp: download_with_progress_def nohit)
qed

lemma download_miss_completes:
  assumes miss: "\<forall>data. files w filename = Some data \<longrightarrow>
                   hexdigest (sha256_digest data) \<noteq> lower expected_hash"
    and net: "network w u = Inr response"
    and len: "content_length response = Inr total_size"
    and nonzero: "total_size = 0 \<longrightarrow> takeWhile (\<lambda>c. c \<noteq> []) (chunks response) = []"
    and complete: "stream_error response = None \<or> [] \<in> set (chunks response)"
  shows "fst (download_with_progress sha256_digest w u expected_hash filename)
           = (if hexdigest (sha256_digest (concat (takeWhile (\<lambda>c. c \<noteq> []) (chunks response))))
                   = lower expected_hash
              then Inr (concat (takeWhile (\<lambda>c. c \<noteq> []) (chunks response)))
              else Inl (SystemExit (''Hash mismatch for '' @ filename)))
       \<and> files (snd (download_with_progress sha256_digest w u expected_hash filename)) filename
           = Some (concat (takeWhile (\<lambda>c. c \<noteq> []) (chunks response)))"
proof -
  let ?data = "concat (takeWhile (\<lambda>c. c \<noteq> []) (chunks response))"
  let ?w2 = "w\<lparr>files := (files w)(filename \<mapsto> []), requests := requests w @ [u]\<rparr>"
  have nohit: "(case files w filename of None \<Rightarrow> None
          | Some data \<Rightarrow> if hexdigest (sha256_digest data) = lower expected_hash
                         then Some data else None) = None"
    using miss by (auto split: option.splits)
  obtain res w3 buf where loop:
    "read_loop filename total_size (chunks response) (stream_error response) ?w2 [] 0
       = (res, w3, buf)"
    by (metis prod_cases3)
  from read_loop_completes [OF loop nonzero complete] have res: "res = None" "buf = ?data"
    by simp_all
  from read_loop_file [OF loop, of "[]"] have fl: "files w3 filename = Some ?data"
    by (simp add: res)
  show ?thesis
  proof (cases "hexdigest (sha256_digest ?data) = lower expected_hash")
    case True
    with nohit net len loop res have
      "download_with_progress sha256_digest w u expected_hash filename
         = (Inr ?data, (print w3 [])\<lparr>total_bytes := total_bytes (print w3 []) + length ?data\<rparr>)"
      by (auto simp: download_with_progress_def Let_def)
    with True fl show ?thesis by (simp add: print_def write_console_def)
  next
    case False
    with nohit net len loop res have
      "download_with_progress sha256_digest w u expected_hash filename
         = (Inl (SystemExit (''Hash mismatch for '' @ filename)), print w3 [])"
      by (auto simp: download_with_progress_def Let_def)
    with False fl show ?thesis by (simp add: print_def write_console_def)
  qed
qed

text \<open>
  C3. When the cache holds a file of the given name: if its hex digest equals the
  expected hash up to letter case, the fetch returns the contents of the file, opens no
  URL and leaves every cached file as it is. If the digest differs, the file is
  downloaded again: the fetch empties the cache file and opens the URL; when the server
  cannot be reached or gives no usable length, the fetch ends in that error with the
  cache file empty; when the response is read to its end, the cache file holds exactly
  the bytes received, and the fetch returns them if their digest is the expected hash
  and ends in the hash-mismatch exit if not.
\<close>

theorem cached_file_decides_fetch:
  assumes "files w filename = Some cached"
  shows "(lower (hexdigest (sha256_digest cached)) = lower expected_hash \<longrightarrow>
            fst (download_with_progress sha256_digest w u expected_hash filename) = Inr cached
          \<and> requests (snd (download_with_progress sha256_digest w u expected_hash filename))
              = requests w
          \<and> files (snd (download_with_progress sha256_digest w u expected_hash filename))
              = files w)
       \<and> (lower (hexdigest (sha256_digest cached)) \<noteq> lower expected_hash \<longrightarrow>
            requests (snd (download_with_progress sha256_digest w u expected_hash filename))
              = requests w @ [u]
          \<and> (\<forall>e. network w u = Inl e
                   \<or> (\<exists>response. network w u = Inr response
                         \<and> content_length response = Inl e) \<longrightarrow>
                fst (download_with_progress sha256_digest w u expected_hash filename) = Inl e
              \<and> files (snd (download_with_progress sha256_digest w u expected_hash filename))
                  filename = Some [])
          \<and> (\<forall>response total_size.
                  network w u = Inr response \<and> content_length response = Inr total_size
                \<and> (total_size = 0 \<longrightarrow> takeWhile (\<lambda>c. c \<noteq> []) (chunks response) = [])
                \<and> (stream_error response = None \<or> [] \<in> set (chunks response)) \<longrightarrow>
                  files (snd (download_with_progress sha256_digest w u expected_hash filename))
                    filename = Some (concat (takeWhile (\<lambda>c. c \<noteq> []) (chunks response)))
                \<and> fst (download_with_progress sha256_digest w u expected_hash filename)
                    = (if hexdigest (sha256_digest
                                      (concat (takeWhile (\<lambda>c. c \<noteq> []) (chunks response))))
                          = lower expected_hash
                       then Inr (concat (takeWhile (\<lambda>c. c \<noteq> []) (chunks response)))
                       else Inl (SystemExit (''Hash mismatch for '' @ filename)))))"
proof (intro conjI impI allI)
  assume "lower (hexdigest (sha256_digest cached)) = lower expected_hash"
  then have h: "hexdigest (sha256_digest cached) = lower expected_hash"
    by (simp only: hexdigest_lower)
  have "download_with_progress sha256_digest w u expected_hash filename =
           (Inr cached, print w (CHR 0x0D # filename @ '' ... OK''))"
    using assms h by (rule download_hit)
  then show "fst (download_with_progress sha256_digest w u expected_hash filename) = Inr cached"
    and "requests (snd (download_with_progress sha256_digest w u expected_hash filename))
              = requests w"
    and "files (snd (download_with_progress sha256_digest w u expected_hash filename))
              = files w"
    by (simp_all add: print_def write_console_def)
next
  assume "lower (hexdigest (sha256_digest cached)) \<noteq> lower expected_hash"
  then have "hexdigest (sha256_digest cached) \<noteq> lower expected_hash"
    by (simp add: hexdigest_lower)
  with assms have miss: "\<forall>data. files w filename = Some data \<longrightarrow>
                   hexdigest (sha256_digest data) \<noteq> lower expected_hash" by simp
  obtain r w' where run: "download_with_progress sha256_digest w u expected_hash filename = (r, w')"
    by (cases "download_with_progress sha256_digest w u expected_hash filename")
  from download_miss [OF miss run]
  show "requests (snd (download_with_progress sha256_digest w u expected_hash filename))
              = requests w @ [u]"
    unfolding run by simp
  {
    fix e
    assume "network w u = Inl e
              \<or> (\<exists>response. network w u = Inr response \<and> content_length response = Inl e)"
    from download_miss_fails [OF miss this]
    show "fst (download_with_progress sha256_digest w u expected_hash filename) = Inl e"
      and "files (snd (download_with_progress sha256_digest w u expected_hash filename))
                  filename = Some []"
      by simp_all
  }
  {
    fix response total_size
    assume a: "network w u = Inr response \<and> content_length response = Inr total_size
                \<and> (total_size = 0 \<longrightarrow> takeWhile (\<lambda>c. c \<noteq> []) (chunks response) = [])
                \<and> (stream_error response = None \<or> [] \<in> set (chunks response))"
    then have "network w u = Inr response" "content_length response = Inr total_size"
      "total_size = 0 \<longrightarrow> takeWhile (\<lambda>c. c \<noteq> []) (chunks response) = []"
      "stream_error response = None \<or> [] \<in> set (chunks response)" by simp_all
    from download_miss_completes [OF miss this]
    show "files (snd (download_with_progress sha256_digest w u expected_hash filename))
                    filename = Some (concat (takeWhile (\<lambda>c. c \<noteq> []) (chunks response)))"
      and "fst (download_with_progress sha256_digest w u expected_hash filename)
                    = (if hexdigest (sha256_digest
                                      (concat (takeWhile (\<lambda>c. c \<noteq> []) (chunks response))))
                          = lower expected_hash
                       then Inr (concat (takeWhile (\<lambda>c. c \<noteq> []) (chunks response)))
                       else Inl (SystemExit (''Hash mismatch for '' @ filename)))"
      by simp_all
  }
qed

theorem cached_file_decides_fetch_witness:
  "fst (download_with_progress toy_digest cached_world ''https://host/pkg.zip'' ''4D'' ''pkg.zip'')
     = Inr ''MZ''
   \<and> requests (snd (download_with_progress toy_digest cached_world ''https://host/pkg.zip'' ''4D''
        ''pkg.zip'')) = []
   \<and> fst (download_with_progress toy_digest cached_world ''https://host/pkg.zip'' ''61''
        ''pkg.zip'') = Inl URLError
   \<and> fst (download_with_progress toy_digest stale_world ''https://host/pkg.zip'' ''61''
        ''pkg.zip'') = Inr ''abcd''
   \<and> files (snd (download_with_progress toy_digest stale_world ''https://host/pkg.zip'' ''61''
        ''pkg.zip'')) ''pkg.zip'' = Some ''abcd''
   \<and> requests (snd (download_with_progress toy_digest stale_world ''https://host/pkg.zip'' ''61''
        ''pkg.zip'')) = [''https://host/pkg.zip'']"
proof -
  have hit: "lower (hexdigest (toy_digest ''MZ'')) = lower ''4D''"
    and stale: "lower (hexdigest (toy_digest ''MZ'')) \<noteq> lower ''61''"
    and fresh: "hexdigest (toy_digest ''abcd'') = lower ''61''"
    by (simp_all add: toy_digest_def hexdigest_def lower_def lower_chr_def Let_def)
  have c: "files cached_world ''pkg.zip'' = Some ''MZ''"
    and off: "network cached_world ''https://host/pkg.zip'' = Inl URLError"
    by (simp_all add: cached_world_def offline_world_def)
  have s: "files stale_world ''pkg.zip'' = Some ''MZ''"
    and srv: "network stale_world ''https://host/pkg.zip''
        = Inr \<lparr>content_length = Inr 4, chunks = [''ab'', ''cd''], stream_error = None\<rparr>"
    and rq: "requests cached_world = []" "requests stale_world = []"
    by (simp_all add: stale_world_def serving_world_def cached_world_def offline_world_def)
  from cached_file_decides_fetch [OF c, of toy_digest "''4D''" "''https://host/pkg.zip''"] hit rq
  have 1: "fst (download_with_progress toy_digest cached_world ''https://host/pkg.zip'' ''4D''
              ''pkg.zip'') = Inr ''MZ''"
    "requests (snd (download_with_progress toy_digest cached_world ''https://host/pkg.zip'' ''4D''
        ''pkg.zip'')) = []"
    by simp_all
  from cached_file_decides_fetch [OF c, of toy_digest "''61''" "''https://host/pkg.zip''"] stale off
  have 2: "fst (download_with_progress toy_digest cached_world ''https://host/pkg.zip'' ''61''
        ''pkg.zip'') = Inl URLError"
    by simp
  from cached_file_decides_fetch [OF s, of toy_digest "''61''" "''https://host/pkg.zip''"] stale
    srv rq fresh
  have 3: "fst (download_with_progress toy_digest stale_world ''https://host/pkg.zip'' ''61''
        ''pkg.zip'') = Inr ''abcd''"
    "files (snd (download_with_progress toy_digest stale_world ''https://host/pkg.zip'' ''61''
        ''pkg.zip'')) ''pkg.zip'' = Some ''abcd''"
    "requests (snd (download_with_progress toy_digest stale_world ''https://host/pkg.zip'' ''61''
        ''pkg.zip'')) = [''https://host/pkg.zip'']"
    by simp_all
  from 1 2 3 show ?thesis by simp
qed

text \<open>
  C4. A fetch that finds no valid cached file, gets a response and reads its stream to
  the end (no division by a zero length, no read error) with bytes whose digest is not
  the expected hash, ends in \<open>sys.exit\<close> with the hash-mismatch message. It has opened
  the URL once and not again, has not counted the bytes, and has left exactly the
  received bytes in the cache file; since their digest differs from the expected hash,
  every later fetch of that file with that hash, in any world that still has these
  bytes, opens its URL again instead of returning the file.
\<close>

theorem hash_mismatch_is_fatal:
  assumes miss: "\<forall>cached. files w filename = Some cached \<longrightarrow>
                   hexdigest (sha256_digest cached) \<noteq> lower expected_hash"
    and net: "network w u = Inr response"
    and len: "content_length response = Inr total_size"
    and nonzero: "total_size = 0 \<longrightarrow> takeWhile (\<lambda>c. c \<noteq> []) (chunks response) = []"
    and complete: "stream_error response = None \<or> [] \<in> set (chunks response)"
    and differs: "hexdigest (sha256_digest (concat (takeWhile (\<lambda>c. c \<noteq> []) (chunks response))))
                    \<noteq> lower expected_hash"
  shows "\<exists>w'. download_with_progress sha256_digest w u expected_hash filename
                 = (Inl (SystemExit (''Hash mismatch for '' @ filename)), w')
          \<and> requests w' = requests w @ [u]
          \<and> total_bytes w' = total_bytes w
          \<and> files w' filename = Some (concat (takeWhile (\<lambda>c. c \<noteq> []) (chunks response)))
          \<and> (\<forall>w'' u'. files w'' filename = files w' filename \<longrightarrow>
                requests (snd (download_with_progress sha256_digest w'' u' expected_hash filename))
                  = requests w'' @ [u'])"
proof -
  let ?data = "concat (takeWhile (\<lambda>c. c \<noteq> []) (chunks response))"
  let ?w2 = "w\<lparr>files := (files w)(filename \<mapsto> []), requests := requests w @ [u]\<rparr>"
  have nohit: "(case files w filename of None \<Rightarrow> None
          | Some data \<Rightarrow> if hexdigest (sha256_digest data) = lower expected_hash
                         then Some data else None) = None"
    using miss by (auto split: option.splits)
  obtain res w3 buf where loop:
    "read_loop filename total_size (chunks response) (stream_error response) ?w2 [] 0
       = (res, w3, buf)"
    by (metis prod_cases3)
  from read_loop_completes [OF loop nonzero complete] have res: "res = None" "buf = ?data"
    by simp_all
  from read_loop_frame [OF loop] have fr: "total_bytes w3 = total_bytes w"
    "requests w3 = requests w @ [u]" by simp_all
  from read_loop_file [OF loop, of "[]"] have fl: "files w3 filename = Some ?data"
    by (simp add: res)
  have run: "download_with_progress sha256_digest w u expected_hash filename
               = (Inl (SystemExit (''Hash mismatch for '' @ filename)), print w3 [])"
    using nohit net len loop res differs
    by (auto simp: download_with_progress_def Let_def)
  have later: "requests (snd (download_with_progress sha256_digest w'' u' expected_hash filename))
                  = requests w'' @ [u']"
    if "files w'' filename = files (print w3 []) filename" for w'' u'
  proof -
    from that fl have "files w'' filename = Some ?data"
      by (simp add: print_def write_console_def)
    with differs have m: "\<forall>cached. files w'' filename = Some cached \<longrightarrow>
                   hexdigest (sha256_digest cached) \<noteq> lower expected_hash" by simp
    obtain r x where "download_with_progress sha256_digest w'' u' expected_hash filename = (r, x)"
      by (cases "download_with_progress sha256_digest w'' u' expected_hash filename")
    with download_miss [OF m this] show ?thesis by simp
  qed
  show ?thesis
    apply (rule exI [of _ "print w3 []"])
    using run fr fl later by (simp add: print_def write_console_def)
qed

theorem hash_mismatch_is_fatal_witness:
  "fst (download_with_progress toy_digest serving_world ''https://host/pkg.zip'' ''4D'' ''pkg.zip'')
     = Inl (SystemExit ''Hash mismatch for pkg.zip'')
   \<and> requests (snd (download_with_progress toy_digest serving_world ''https://host/pkg.zip''
        ''4D'' ''pkg.zip'')) = [''https://host/pkg.zip'']
   \<and> files (snd (download_with_progress toy_digest serving_world ''https://host/pkg.zip''
        ''4D'' ''pkg.zip'')) ''pkg.zip'' = Some ''abcd''"
  using hash_mismatch_is_fatal [of serving_world "''pkg.zip''" toy_digest "''4D''"
      "''https://host/pkg.zip''"
      "\<lparr>content_length = Inr 4, chunks = [''ab'', ''cd''], stream_error = None\<rparr>" 4]
  by (auto simp add: serving_world_def offline_world_def toy_digest_def hexdigest_def lower_def
        lower_chr_def Let_def)

text \<open>
  C9. On a cache hit the fetch leaves the byte counter, the cache files and the request
  log unchanged. Without a cache hit it opens the URL, and the counter grows by exactly
  the length of the returned bytes when the fetch returns (the digest then matches),
  and stays as it was when the fetch ends in an error.
\<close>

theorem total_bytes_counts_downloads:
  assumes run: "download_with_progress sha256_digest w u expected_hash filename = (r, w')"
  shows "((\<exists>cached. files w filename = Some cached
              \<and> hexdigest (sha256_digest cached) = lower expected_hash) \<longrightarrow>
            total_bytes w' = total_bytes w \<and> files w' = files w \<and> requests w' = requests w)
       \<and> (\<not> (\<exists>cached. files w filename = Some cached
              \<and> hexdigest (sha256_digest cached) = lower expected_hash) \<longrightarrow>
            requests w' = requests w @ [u]
          \<and> (\<forall>data. r = Inr data \<longrightarrow>
                total_bytes w' = total_bytes w + length data
              \<and> hexdigest (sha256_digest data) = lower expected_hash)
          \<and> (\<forall>e. r = Inl e \<longrightarrow> total_bytes w' = total_bytes w))"
proof (intro conjI impI)
  assume "\<exists>cached. files w filename = Some cached
              \<and> hexdigest (sha256_digest cached) = lower expected_hash"
  then obtain cached where c: "files w filename = Some cached"
    "hexdigest (sha256_digest cached) = lower expected_hash" by blast
  have "download_with_progress sha256_digest w u expected_hash filename =
           (Inr cached, print w (CHR 0x0D # filename @ '' ... OK''))"
    using c by (rule download_hit)
  with run have "w' = print w (CHR 0x0D # filename @ '' ... OK'')" by simp
  then show "total_bytes w' = total_bytes w" "files w' = files w" "requests w' = requests w"
    by (simp_all add: print_def write_console_def)
next
  assume "\<not> (\<exists>cached. files w filename = Some cached
              \<and> hexdigest (sha256_digest cached) = lower expected_hash)"
  then have miss: "\<forall>data. files w filename = Some data \<longrightarrow>
                   hexdigest (sha256_digest data) \<noteq> lower expected_hash" by simp
  from download_miss [OF miss run]
  show "requests w' = requests w @ [u]"
    and "\<forall>data. r = Inr data \<longrightarrow>
                total_bytes w' = total_bytes w + length data
              \<and> hexdigest (sha256_digest data) = lower expected_hash"
    and "\<forall>e. r = Inl e \<longrightarrow> total_bytes w' = total_bytes w"
    by auto
qed

theorem total_bytes_counts_downloads_witness:
  "total_bytes (snd (download_with_progress toy_digest cached_world ''https://host/pkg.zip''
      ''4D'' ''pkg.zip'')) = 0
   \<and> download_with_progress toy_digest serving_world ''https://host/pkg.zip'' ''61'' ''pkg.zip''
       = (Inr ''abcd'', snd (download_with_progress toy_digest serving_world
            ''https://host/pkg.zip'' ''61'' ''pkg.zip''))
   \<and> total_bytes (snd (download_with_progress toy_digest serving_world ''https://host/pkg.zip''
      ''61'' ''pkg.zip'')) = 4"
  using total_bytes_counts_downloads [of toy_digest cached_world "''https://host/pkg.zip''"
      "''4D''" "''pkg.zip''"
      "fst (download_with_progress toy_digest cached_world ''https://host/pkg.zip'' ''4D'' ''pkg.zip'')"
      "snd (download_with_progress toy_digest cached_world ''https://host/pkg.zip'' ''4D'' ''pkg.zip'')"]
    total_bytes_counts_downloads [of toy_digest serving_world "''https://host/pkg.zip''"
      "''61''" "''pkg.zip''" "Inr ''abcd''"
      "snd (download_with_progress toy_digest serving_world ''https://host/pkg.zip'' ''61'' ''pkg.zip'')"]
  by (simp add: cached_world_def serving_world_def offline_world_def toy_digest_def hexdigest_def
        lower_def lower_chr_def Let_def download_with_progress_def print_def write_console_def
        file_write_def str_int_def)

subsection \<open>The toolchain packages\<close>

lemma redist_present:
  "map_of packages (''microsoft.vc.'' @ v @ ''.crt.redist.'' @ t
        @ (if t = ''arm'' then ''.onecore.desktop'' else []) @ ''.base'') \<noteq> None \<Longrightarrow>
   redist_package packages v t
     = Inr (''microsoft.vc.'' @ v @ ''.crt.redist.'' @ t
        @ (if t = ''arm'' then ''.onecore.desktop'' else []) @ ''.base'')"
  by (auto simp: redist_package_def Let_def)

lemma redist_fallback:
  "map_of packages (''microsoft.vc.'' @ v @ ''.crt.redist.'' @ t
        @ (if t = ''arm'' then ''.onecore.desktop'' else []) @ ''.base'') = None \<Longrightarrow>
   map_of packages (''microsoft.visualcpp.crt.redist.'' @ t
        @ (if t = ''arm'' then ''.onecore.desktop'' else [])) = Some (redist # further) \<Longrightarrow>
   dependencies redist = Some deps \<Longrightarrow>
   find_first_item deps (\<lambda>dep. endswith dep ''.base'') = Some dep \<Longrightarrow>
   redist_package packages v t = Inr (lower dep)"
  by (simp add: redist_package_def Let_def getitem_def find_first_item_def)

lemma target_packages_last:
  "redist_package packages v t = Inr r \<Longrightarrow>
   \<exists>others. target_packages packages h v [t] acc = Inr (acc @ others @ [r])"
  by (cases "t \<in> set [''x86'', ''x64'']") (simp_all add: Let_def del: set_simps)

text \<open>
  C8, as the code has it. For the target \<open>arm\<close> the redistributable is looked for under
  \<open>microsoft.vc.{version}.crt.redist.arm.onecore.desktop.base\<close>, and for each of \<open>x64\<close>,
  \<open>x86\<close> and \<open>arm64\<close> under \<open>microsoft.vc.{version}.crt.redist.{target}.base\<close>; when the
  index has that identifier, it is the redistributable produced. When the index lacks
  it, the redistributable produced is the lower-cased first dependency ending in
  \<open>.base\<close> of the first package \<open>microsoft.visualcpp.crt.redist.arm.onecore.desktop\<close>
  (for \<open>arm\<close>) or \<open>microsoft.visualcpp.crt.redist.{target}\<close> (for the others), whatever
  the suffix of that dependency. In each case it is the last identifier the loop adds for
  the target.
\<close>

theorem redist_suffix_by_target:
  "(map_of packages (''microsoft.vc.'' @ v @ ''.crt.redist.arm.onecore.desktop.base'') \<noteq> None \<longrightarrow>
      redist_package packages v ''arm''
        = Inr (''microsoft.vc.'' @ v @ ''.crt.redist.arm.onecore.desktop.base'')
    \<and> (\<exists>others. target_packages packages h v [''arm''] acc
          = Inr (acc @ others @ [''microsoft.vc.'' @ v @ ''.crt.redist.arm.onecore.desktop.base''])))
   \<and> (t \<in> {''x64'', ''x86'', ''arm64''}
        \<and> map_of packages (''microsoft.vc.'' @ v @ ''.crt.redist.'' @ t @ ''.base'') \<noteq> None \<longrightarrow>
      redist_package packages v t = Inr (''microsoft.vc.'' @ v @ ''.crt.redist.'' @ t @ ''.base'')
    \<and> (\<exists>others. target_packages packages h v [t] acc
          = Inr (acc @ others @ [''microsoft.vc.'' @ v @ ''.crt.redist.'' @ t @ ''.base''])))
   \<and> (map_of packages (''microsoft.vc.'' @ v @ ''.crt.redist.arm.onecore.desktop.base'') = None
        \<and> map_of packages ''microsoft.visualcpp.crt.redist.arm.onecore.desktop''
            = Some (redist # further)
        \<and> dependencies redist = Some deps
        \<and> find_first_item deps (\<lambda>dep. endswith dep ''.base'') = Some dep \<longrightarrow>
      redist_package packages v ''arm'' = Inr (lower dep)
    \<and> (\<exists>others. target_packages packages h v [''arm''] acc = Inr (acc @ others @ [lower dep])))
   \<and> (t \<in> {''x64'', ''x86'', ''arm64''}
        \<and> map_of packages (''microsoft.vc.'' @ v @ ''.crt.redist.'' @ t @ ''.base'') = None
        \<and> map_of packages (''microsoft.visualcpp.crt.redist.'' @ t) = Some (redist # further)
        \<and> dependencies redist = Some deps
        \<and> find_first_item deps (\<lambda>dep. endswith dep ''.base'') = Some dep \<longrightarrow>
      redist_package packages v t = Inr (lower dep)
    \<and> (\<exists>others. target_packages packages h v [t] acc = Inr (acc @ others @ [lower dep])))"
proof (intro conjI impI)
  assume "map_of packages (''microsoft.vc.'' @ v @ ''.crt.redist.arm.onecore.desktop.base'') \<noteq> None"
  with redist_present [of packages v "''arm''"]
  show r: "redist_package packages v ''arm''
        = Inr (''microsoft.vc.'' @ v @ ''.crt.redist.arm.onecore.desktop.base'')"
    by simp
  from target_packages_last [OF r]
  show "\<exists>others. target_packages packages h v [''arm''] acc
          = Inr (acc @ others @ [''microsoft.vc.'' @ v @ ''.crt.redist.arm.onecore.desktop.base''])" .
next
  assume b: "t \<in> {''x64'', ''x86'', ''arm64''}
        \<and> map_of packages (''microsoft.vc.'' @ v @ ''.crt.redist.'' @ t @ ''.base'') \<noteq> None"
  then have "t \<noteq> ''arm''" by auto
  with b redist_present [of packages v t]
  show r: "redist_package packages v t
        = Inr (''microsoft.vc.'' @ v @ ''.crt.redist.'' @ t @ ''.base'')"
    by simp
  from target_packages_last [OF r]
  show "\<exists>others. target_packages packages h v [t] acc
          = Inr (acc @ others @ [''microsoft.vc.'' @ v @ ''.crt.redist.'' @ t @ ''.base''])" .
next
  assume c: "map_of packages (''microsoft.vc.'' @ v @ ''.crt.redist.arm.onecore.desktop.base'') = None
        \<and> map_of packages ''microsoft.visualcpp.crt.redist.arm.onecore.desktop''
            = Some (redist # further)
        \<and> dependencies redist = Some deps
        \<and> find_first_item deps (\<lambda>dep. endswith dep ''.base'') = Some dep"
  with redist_fallback [of packages v "''arm''" redist further deps dep]
  show r: "redist_package packages v ''arm'' = Inr (lower dep)"
    by simp
  from target_packages_last [OF r]
  show "\<exists>others. target_packages packages h v [''arm''] acc = Inr (acc @ others @ [lower dep])" .
next
  assume d: "t \<in> {''x64'', ''x86'', ''arm64''}
        \<and> map_of packages (''microsoft.vc.'' @ v @ ''.crt.redist.'' @ t @ ''.base'') = None
        \<and> map_of packages (''microsoft.visualcpp.crt.redist.'' @ t) = Some (redist # further)
        \<and> dependencies redist = Some deps
        \<and> find_first_item deps (\<lambda>dep. endswith dep ''.base'') = Some dep"
  then have "t \<noteq> ''arm''" by auto
  with d redist_fallback [of packages v t redist further deps dep]
  show r: "redist_package packages v t = Inr (lower dep)"
    by simp
  from target_packages_last [OF r]
  show "\<exists>others. target_packages packages h v [t] acc = Inr (acc @ others @ [lower dep])" .
qed

theorem redist_suffix_by_target_witness:
  "redist_package redist_index ''14.39.17.9'' ''arm''
     = Inr ''microsoft.vc.14.39.17.9.crt.redist.arm.onecore.desktop.base''
   \<and> redist_package redist_index ''14.39.17.9'' ''x64''
     = Inr ''microsoft.vc.14.39.17.9.crt.redist.x64.base''
   \<and> redist_package fallback_index ''14.39.17.9'' ''arm''
     = Inr ''microsoft.vc.14.38.17.8.crt.redist.arm.base''
   \<and> redist_package fallback_index ''14.39.17.9'' ''x64''
     = Inr ''microsoft.vc.14.38.17.8.crt.redist.x64.onecore.desktop.base''"
  using redist_suffix_by_target [where packages = redist_index and v = "''14.39.17.9''"
      and t = "''x64''" and h = "''x64''" and acc = "[]" and redist = "plain_package []"
      and further = "[]" and deps = "[]" and dep = "[]"]
    redist_suffix_by_target [where packages = fallback_index and v = "''14.39.17.9''"
      and t = "''x64''" and h = "''x64''" and acc = "[]"
      and redist = "\<lparr>pkg_id = ''Microsoft.VisualCpp.CRT.Redist.ARM.OneCore.Desktop'',
         language = None, payloads = None,
         dependencies = Some [''Microsoft.VisualCpp.Redist.14'',
                              ''Microsoft.VC.14.38.17.8.CRT.Redist.ARM.base'']\<rparr>"
      and further = "[]"
      and deps = "[''Microsoft.VisualCpp.Redist.14'',
                   ''Microsoft.VC.14.38.17.8.CRT.Redist.ARM.base'']"
      and dep = "''Microsoft.VC.14.38.17.8.CRT.Redist.ARM.base''"]
    redist_suffix_by_target [where packages = fallback_index and v = "''14.39.17.9''"
      and t = "''x64''" and h = "''x64''" and acc = "[]"
      and redist = "\<lparr>pkg_id = ''Microsoft.VisualCpp.CRT.Redist.X64'',
         language = None, payloads = None,
         dependencies = Some [''Microsoft.VC.14.38.17.8.CRT.Redist.X64.OneCore.Desktop.base'']\<rparr>"
      and further = "[]"
      and deps = "[''Microsoft.VC.14.38.17.8.CRT.Redist.X64.OneCore.Desktop.base'']"
      and dep = "''Microsoft.VC.14.38.17.8.CRT.Redist.X64.OneCore.Desktop.base''"]
  by (simp add: redist_index_def fallback_index_def find_first_item_def endswith_def
        lower_def lower_chr_def Let_def)

text \<open>
  C8 as stated fails: with an index that lacks the conventionally named
  redistributables, the expansion for \<open>arm\<close> produces
  \<open>microsoft.vc.14.38.17.8.crt.redist.arm.base\<close>, the bare suffix, and no identifier
  with \<open>.crt.redist.arm.onecore.desktop.base\<close>; and the one for \<open>x64\<close> produces an
  identifier with \<open>.onecore.desktop\<close> before \<open>.base\<close>.
\<close>

theorem redist_fallback_ignores_target_suffix:
  "redist_package fallback_index ''14.39.17.9'' ''arm''
     = Inr ''microsoft.vc.14.38.17.8.crt.redist.arm.base''
   \<and> target_packages fallback_index ''x64'' ''14.39.17.9'' [''arm''] []
     = Inr [''microsoft.vc.14.39.17.9.tools.hostx64.targetarm.base'',
            ''microsoft.vc.14.39.17.9.tools.hostx64.targetarm.res.base'',
            ''microsoft.vc.14.39.17.9.crt.arm.desktop.base'',
            ''microsoft.vc.14.39.17.9.crt.arm.store.base'',
            ''microsoft.vc.14.39.17.9.premium.tools.hostx64.targetarm.base'',
            ''microsoft.vc.14.39.17.9.pgo.arm.base'',
            ''microsoft.vc.14.38.17.8.crt.redist.arm.base'']
   \<and> redist_package fallback_index ''14.39.17.9'' ''x64''
     = Inr ''microsoft.vc.14.38.17.8.crt.redist.x64.onecore.desktop.base''"
  by (simp add: redist_package_def fallback_index_def getitem_def find_first_item_def
        endswith_def lower_def lower_chr_def Let_def)

text \<open>The loop that downloads reports an identifier that the index lacks and goes on
  with the next one.\<close>

lemma package_loop_missing:
  "map_of packages package_name = None \<Longrightarrow>
   package_loop sha256_digest io packages (package_name # rest) w =
   package_loop sha256_digest io packages rest
     (print w (CHR 0x0D # package_name @ '' ... !!! MISSING !!!''))"
  by simp

text \<open>
  C7, at an input where it fails. The index has the compiler tools of 14.39.17.9 and
  neither \<open>microsoft.vc.14.39.17.9.crt.redist.x64.base\<close> nor
  \<open>microsoft.visualcpp.crt.redist.x64\<close>. For the target \<open>x64\<close> the lookup
  \<open>packages[redist_name]\<close> raises \<open>KeyError\<close>: \<open>download_msvc\<close> ends there, having
  printed its first line only, and reports none of the absent identifiers.
\<close>

theorem download_msvc_aborts_on_absent_redist:
  "download_msvc sha256_digest io x64_installer tools_only_index ''14.39.17.9'' w
     = (Some (KeyError ''microsoft.visualcpp.crt.redist.x64''),
        print w ''Downloading MSVC packages...'')"
  by (simp add: download_msvc_def x64_installer_def tools_only_index_def redist_package_def
        getitem_def Let_def)

subsection \<open>The SDK packages\<close>

lemma msi_bytes_cabs:
  "extract_cab_files msi_bytes = Inr [''a0b1c2d3e4f5a6b7c8d9e0f1a2b3c4d5.cab'']"
  by (simp add: extract_cab_files_def msi_bytes_def bytes_find_def startswith_def
        decode_ascii_def slice_def slice_bound_def)

lemma sdk_names_sorted:
  "sort ([''Windows SDK for Windows Store Apps Tools-x86_en-us.msi'',
             ''Windows SDK for Windows Store Apps Headers-x86_en-us.msi'',
             ''Windows SDK for Windows Store Apps Headers OnecoreUap-x86_en-us.msi'',
             ''Windows SDK for Windows Store Apps Libs-x86_en-us.msi'',
             ''Universal CRT Headers Libraries and Sources-x86_en-us.msi'']
            @ concat (map (\<lambda>target.
                 [''Windows SDK Desktop Headers '' @ target @ ''-x86_en-us.msi'',
                  ''Windows SDK OnecoreUap Headers '' @ target @ ''-x86_en-us.msi'']) ALL_TARGETS)
            @ map (\<lambda>target. ''Windows SDK Desktop Libs '' @ target @ ''-x86_en-us.msi'')
                [''x64'']) =
   [''Universal CRT Headers Libraries and Sources-x86_en-us.msi'',
    ''Windows SDK Desktop Headers arm-x86_en-us.msi'',
    ''Windows SDK Desktop Headers arm64-x86_en-us.msi'',
    ''Windows SDK Desktop Headers x64-x86_en-us.msi'',
    ''Windows SDK Desktop Headers x86-x86_en-us.msi'',
    ''Windows SDK Desktop Libs x64-x86_en-us.msi'',
    ''Windows SDK OnecoreUap Headers arm-x86_en-us.msi'',
    ''Windows SDK OnecoreUap Headers arm64-x86_en-us.msi'',
    ''Windows SDK OnecoreUap Headers x64-x86_en-us.msi'',
    ''Windows SDK OnecoreUap Headers x86-x86_en-us.msi'',
    ''Windows SDK for Windows Store Apps Headers OnecoreUap-x86_en-us.msi'',
    ''Windows SDK for Windows Store Apps Headers-x86_en-us.msi'',
    ''Windows SDK for Windows Store Apps Libs-x86_en-us.msi'',
    ''Windows SDK for Windows Store Apps Tools-x86_en-us.msi'']"
  by code_simp

text \<open>The loop over the installer packages skips a name that the payload list lacks.\<close>

lemma msi_loop_skips_unlisted:
  "find_first_item sdk_payloads (\<lambda>p. fileName p = ''Installers'' @ [CHR 0x5C] @ package_name)
     = None \<Longrightarrow>
   msi_loop sha256_digest sdk_payloads (package_name # rest) msi_files cab_files w =
   msi_loop sha256_digest sdk_payloads rest msi_files cab_files w"
  by simp

text \<open>
  C6, at an input where it fails. The SDK package lists one installer package, whose
  bytes name the cabinet \<open>a0b1c2d3e4f5a6b7c8d9e0f1a2b3c4d5.cab\<close>, and no payload of that
  name. Whatever the digest function and the expander are, \<open>download_sdk\<close> downloads
  the installer package and then ends in \<open>TypeError\<close>, raised by \<open>payload["url"]\<close> on
  \<open>None\<close> in the loop over the cabinets.
\<close>

theorem download_sdk_crashes_on_unlisted_cab:
  "fst (download_sdk sha256_digest msiexec x64_installer (sdk_index sha256_digest)
          ''microsoft.visualstudio.component.windows11sdk.22621'' msi_world) = Some TypeError"
proof -
  have ne: "msi_bytes \<noteq> []" "length msi_bytes = 44" by (simp_all add: msi_bytes_def)
  show ?thesis
    unfolding download_sdk_def x64_installer_def
    apply (simp only: Let_def vs_installer.select_convs sdk_names_sorted)
    apply (simp add: sdk_index_def msi_world_def offline_world_def
          first_package_def getitem_def find_first_item_def lower_def lower_chr_def Let_def
          download_with_progress_def print_def write_console_def file_write_def
          hexdigest_lower [unfolded lower_def] ne msi_bytes_cabs)
    done
qed

subsection \<open>The scan for cabinet names\<close>

lemma find_from_Some:
  "find_from ''.cab'' bs k = Some i \<Longrightarrow>
     k \<le> i \<and> i < k + length bs \<and> startswith (drop (i - k) bs) ''.cab''
     \<and> (\<forall>j. j < i - k \<longrightarrow> \<not> startswith (drop j bs) ''.cab'')"
proof (induction bs arbitrary: k)
  case Nil
  then show ?case by simp
next
  case (Cons b bs)
  show ?case
  proof (cases "startswith (b # bs) ''.cab''")
    case True
    with Cons.prems show ?thesis by simp
  next
    case False
    with Cons.prems have "find_from ''.cab'' bs (Suc k) = Some i" by simp
    from Cons.IH [OF this] have ih: "Suc k \<le> i" "i < Suc k + length bs"
      "startswith (drop (i - Suc k) bs) ''.cab''"
      "\<And>j. j < i - Suc k \<Longrightarrow> \<not> startswith (drop j bs) ''.cab''" by auto
    from ih(1) have e: "i - k = Suc (i - Suc k)" by simp
    have "\<not> startswith (drop j (b # bs)) ''.cab''" if "j < i - k" for j
    proof (cases j)
      case 0
      with False show ?thesis by simp
    next
      case (Suc j')
      with that e have "j' < i - Suc k" by simp
      from ih(4) [OF this] Suc show ?thesis by simp
    qed
    with ih e show ?thesis by simp
  qed
qed

lemma find_from_None:
  "find_from ''.cab'' bs k = None \<Longrightarrow> \<not> startswith (drop j bs) ''.cab''"
proof (induction bs arbitrary: k j)
  case Nil
  then show ?case by (simp add: startswith_def)
next
  case (Cons b bs)
  then have nf: "\<not> startswith (b # bs) ''.cab''" and r: "find_from ''.cab'' bs (Suc k) = None"
    by (auto split: if_splits)
  show ?case
  proof (cases j)
    case 0
    with nf show ?thesis by simp
  next
    case (Suc j')
    with Cons.IH [OF r, of j'] show ?thesis by simp
  qed
qed

lemma bytes_find_Some:
  assumes "bytes_find data ''.cab'' s = Some i"
  shows "s \<le> i" and "i < length data" and "startswith (drop i data) ''.cab''"
    and "\<And>j. s \<le> j \<Longrightarrow> j < i \<Longrightarrow> \<not> startswith (drop j data) ''.cab''"
proof -
  from assms have le: "s \<le> length data"
    and f: "find_from ''.cab'' (drop s data) s = Some i"
    by (auto simp: bytes_find_def split: if_splits)
  from find_from_Some [OF f] have a: "s \<le> i" "i < s + length (drop s data)"
    "startswith (drop (i - s) (drop s data)) ''.cab''"
    "\<And>j. j < i - s \<Longrightarrow> \<not> startswith (drop j (drop s data)) ''.cab''" by auto
  show "s \<le> i" by (rule a(1))
  show "i < length data" using a(2) le by simp
  show "startswith (drop i data) ''.cab''" using a(1,3) by simp
  show "\<not> startswith (drop j data) ''.cab''" if "s \<le> j" "j < i" for j
  proof -
    from that have "j - s < i - s" by simp
    from a(4) [OF this] that show ?thesis by simp
  qed
qed

lemma bytes_find_None:
  assumes "bytes_find data ''.cab'' s = None" and "s \<le> j"
  shows "\<not> startswith (drop j data) ''.cab''"
proof (cases "length data < s")
  case True
  with assms(2) show ?thesis by (simp add: startswith_def)
next
  case False
  with assms(1) have "find_from ''.cab'' (drop s data) s = None"
    by (simp add: bytes_find_def)
  from find_from_None [OF this, of "j - s"] assms(2) show ?thesis by simp
qed

lemma marker_no_overlap:
  assumes "startswith (drop i data) ''.cab''" and "i < j" and "j < i + 4"
  shows "\<not> startswith (drop j data) ''.cab''"
proof -
  obtain rest where d: "drop i data = ''.cab'' @ rest"
    using assms(1) unfolding startswith_def by (metis append_take_drop_id)
  from assms(2,3) have "j - i \<in> {1, 2, 3}" by auto
  moreover have "drop j data = drop (j - i) (drop i data)" using assms(2) by simp
  ultimately show ?thesis
    unfolding d by (auto simp: startswith_def)
qed


lemma filter_upt_first:
  assumes "s \<le> i" and "i < n" and "P i" and "\<And>j. s \<le> j \<Longrightarrow> j < i \<Longrightarrow> \<not> P j"
  shows "filter P [s..<n] = i # filter P [Suc i..<n]"
proof -
  have "[s..<n] = [s..<i] @ [i..<n]"
    using upt_add_eq_append [OF assms(1), of "n - i"] assms(2) by simp
  moreover have "[i..<n] = i # [Suc i..<n]"
    using assms(2) by (rule upt_conv_Cons)
  moreover have "filter P [s..<i] = []"
    using assms(4) by (auto simp: filter_empty_conv)
  ultimately show ?thesis using assms(3) by simp
qed

lemma filter_upt_skip:
  assumes "\<And>j. i < j \<Longrightarrow> j < i + 4 \<Longrightarrow> \<not> P j"
  shows "filter P [Suc i..<n] = filter P [i + 4..<n]"
proof (cases "i + 4 \<le> n")
  case True
  then have "[Suc i..<n] = [Suc i..<i + 4] @ [i + 4..<n]"
    using upt_add_eq_append [of "Suc i" "i + 4" "n - (i + 4)"] by simp
  moreover have "filter P [Suc i..<i + 4] = []"
    using assms by (auto simp: filter_empty_conv)
  ultimately show ?thesis by simp
next
  case False
  then have "filter P [Suc i..<n] = []"
    using assms by (auto simp: filter_empty_conv)
  with False show ?thesis by simp
qed

lemma extract_cab_loop_scan:
  "extract_cab_loop data index acc =
     (if \<forall>i\<in>set (filter (\<lambda>i. startswith (drop i data) ''.cab'') [index + 4..<length data]).
           list_all (\<lambda>b. (of_char b :: nat) < 128) (slice data (int i - 32) (int i + 4))
      then Inr (acc @ map (\<lambda>i. slice data (int i - 32) (int i + 4))
                  (filter (\<lambda>i. startswith (drop i data) ''.cab'') [index + 4..<length data]))
      else Inl UnicodeDecodeError)"
proof (induction data index acc rule: extract_cab_loop.induct)
  case (1 msi_data index cab_files)
  let ?P = "\<lambda>i. startswith (drop i msi_data) ''.cab''"
  let ?W = "\<lambda>i. slice msi_data (int i - 32) (int i + 4)"
  show ?case
  proof (cases "bytes_find msi_data ''.cab'' (index + 4)")
    case None
    have "filter ?P [index + 4..<length msi_data] = []"
      using bytes_find_None [OF None] by (auto simp: filter_empty_conv)
    with None show ?thesis
      by (subst extract_cab_loop.simps) (simp del: extract_cab_loop.simps)
  next
    case (Some i)
    note f = bytes_find_Some [OF Some]
    have "filter ?P [index + 4..<length msi_data] = i # filter ?P [Suc i..<length msi_data]"
      using f by (intro filter_upt_first) auto
    also have "filter ?P [Suc i..<length msi_data] = filter ?P [i + 4..<length msi_data]"
      using marker_no_overlap [OF f(3)] by (intro filter_upt_skip) auto
    finally have occs: "filter ?P [index + 4..<length msi_data]
                          = i # filter ?P [i + 4..<length msi_data]" .
    show ?thesis
    proof (cases "list_all (\<lambda>b. (of_char b :: nat) < 128) (?W i)")
      case False
      then have "decode_ascii (?W i) = Inl UnicodeDecodeError"
        by (simp add: decode_ascii_def)
      with Some False occs show ?thesis
        by (subst extract_cab_loop.simps) (simp del: extract_cab_loop.simps)
    next
      case True
      then have d: "decode_ascii (?W i) = Inr (?W i)"
        by (simp add: decode_ascii_def)
      have "extract_cab_loop msi_data index cab_files
              = extract_cab_loop msi_data i (cab_files @ [?W i])"
        using Some d by (subst extract_cab_loop.simps) (simp del: extract_cab_loop.simps)
      also note "1.IH" [OF Some d]
      finally show ?thesis using True by (simp add: occs del: extract_cab_loop.simps)
    qed
  qed
qed

lemma window_36:
  assumes "32 \<le> i" and "startswith (drop i data) ''.cab''"
  shows "slice data (int i - 32) (int i + 4) = take 36 (drop (i - 32) data)"
proof -
  obtain rest where "drop i data = ''.cab'' @ rest"
    using assms(2) unfolding startswith_def by (metis append_take_drop_id)
  then have "length (drop i data) = 4 + length rest" by simp
  then have "i + 4 \<le> length data" by simp
  with assms(1) have "slice_bound (length data) (int i - 32) = i - 32"
    "slice_bound (length data) (int i + 4) = i + 4"
    by (auto simp: slice_bound_def)
  with assms(1) show ?thesis by (simp add: slice_def)
qed

text \<open>
  C5, as the code has it. \<open>extract_cab_files\<close> searches from offset 4 on. It returns,
  in order, one name for each occurrence of the marker \<open>.cab\<close> at an offset of 4 or
  more, the name for the occurrence at offset \<open>i\<close> being the slice \<open>[i - 32 : i + 4]\<close> of
  the buffer; when one of these slices has a byte above 127, the call raises
  \<open>UnicodeDecodeError\<close> instead. For an occurrence at an offset of 32 or more the slice
  is the 36 bytes that end with the marker. On 32 bytes \<open>X\<close> followed by \<open>.cab\<close> the
  result is that one name of 36 characters.
\<close>

theorem extract_cab_files_scan:
  "extract_cab_files data =
     (if \<forall>i\<in>set (filter (\<lambda>i. startswith (drop i data) ''.cab'') [4..<length data]).
           list_all (\<lambda>b. (of_char b :: nat) < 128) (slice data (int i - 32) (int i + 4))
      then Inr (map (\<lambda>i. slice data (int i - 32) (int i + 4))
                  (filter (\<lambda>i. startswith (drop i data) ''.cab'') [4..<length data]))
      else Inl UnicodeDecodeError)
   \<and> (32 \<le> i \<and> startswith (drop i data) ''.cab'' \<longrightarrow>
        slice data (int i - 32) (int i + 4) = take 36 (drop (i - 32) data))
   \<and> extract_cab_files (replicate 32 (CHR ''X'') @ ''.cab'')
        = Inr [replicate 32 (CHR ''X'') @ ''.cab'']"
proof (intro conjI impI)
  show "extract_cab_files data =
     (if \<forall>i\<in>set (filter (\<lambda>i. startswith (drop i data) ''.cab'') [4..<length data]).
           list_all (\<lambda>b. (of_char b :: nat) < 128) (slice data (int i - 32) (int i + 4))
      then Inr (map (\<lambda>i. slice data (int i - 32) (int i + 4))
                  (filter (\<lambda>i. startswith (drop i data) ''.cab'') [4..<length data]))
      else Inl UnicodeDecodeError)"
    unfolding extract_cab_files_def using extract_cab_loop_scan [of data 0 "[]"] by simp
next
  assume "32 \<le> i \<and> startswith (drop i data) ''.cab''"
  then show "slice data (int i - 32) (int i + 4) = take 36 (drop (i - 32) data)"
    using window_36 by blast
next
  show "extract_cab_files (replicate 32 (CHR ''X'') @ ''.cab'')
        = Inr [replicate 32 (CHR ''X'') @ ''.cab'']"
    by code_simp
qed

theorem extract_cab_files_scan_witness:
  "extract_cab_files msi_bytes = Inr [''a0b1c2d3e4f5a6b7c8d9e0f1a2b3c4d5.cab'']
   \<and> slice msi_bytes (int 36 - 32) (int 36 + 4) = ''a0b1c2d3e4f5a6b7c8d9e0f1a2b3c4d5.cab''"
  using extract_cab_files_scan [of msi_bytes 36]
  by (simp add: msi_bytes_def startswith_def upt_rec slice_def slice_bound_def)

text \<open>
  C5 as stated fails: the marker at offset 0 of the buffer \<open>.cab\<close> yields no name,
  although the slice \<open>[0 - 32 : 0 + 4]\<close> of that buffer is \<open>.cab\<close>; and for a marker
  whose slice has the byte 0xFF no list is returned at all.
\<close>

theorem extract_cab_files_misses_early_marker:
  "startswith (drop 0 ''.cab'') ''.cab''
   \<and> slice ''.cab'' (int 0 - 32) (int 0 + 4) = ''.cab''
   \<and> extract_cab_files ''.cab'' = Inr []
   \<and> startswith (drop 5 (''MSI:'' @ [CHR 0xFF] @ ''.cab'')) ''.cab''
   \<and> extract_cab_files (''MSI:'' @ [CHR 0xFF] @ ''.cab'') = Inl UnicodeDecodeError"
  by (simp add: extract_cab_files_def bytes_find_def startswith_def decode_ascii_def slice_def
        slice_bound_def)

subsection \<open>Version discovery\<close>

lemma split_nonempty: "split s c \<noteq> []"
  by (induction s) (auto split: list.splits)

lemma length_split: "length (split s c) = Suc (count_list s c)"
proof (induction s)
  case Nil
  then show ?case by simp
next
  case (Cons a s)
  then show ?case
    using split_nonempty [of s c] by (auto split: list.splits)
qed

lemma version_nonempty:
  assumes "endswith package_id ''.tools.hostx64.targetx64.base''"
  shows "join ''.'' (slice (split package_id (CHR ''.'')) 2 4) \<noteq> []"
proof -
  let ?suf = "''.tools.hostx64.targetx64.base''"
  from assms have "package_id = take (length package_id - length ?suf) package_id @ ?suf"
    unfolding endswith_def by (metis append_take_drop_id)
  then obtain pre where p: "package_id = pre @ ?suf" ..
  have "count_list package_id (CHR ''.'') = count_list pre (CHR ''.'') + 4"
    unfolding p by simp
  then have "4 \<le> length (split package_id (CHR ''.''))"
    by (simp add: length_split)
  then have "length (slice (split package_id (CHR ''.'')) 2 4) = 2"
    by (simp add: slice_def slice_bound_def)
  then obtain a b where "slice (split package_id (CHR ''.'')) 2 4 = [a, b]"
    by (auto simp: length_Suc_conv numeral_2_eq_2)
  then show ?thesis by simp
qed


lemma index_packages_keys:
  "fst ` set (fold (\<lambda>package packages. setdefault_append packages (lower (pkg_id package)) package)
                ps d)
     = fst ` set d \<union> (\<lambda>p. lower (pkg_id p)) ` set ps"
  by (induction ps arbitrary: d) (auto simp: setdefault_append_def dom_update)

lemma update_entries:
  "(a, b) \<in> set (AList.update k v al) \<Longrightarrow> (a, b) = (k, v) \<or> (a, b) \<in> set al"
  by (induction al) (auto split: if_splits)

lemma scan_step:
  "startswith package_id ''microsoft.vc.''
     \<and> endswith package_id ''.tools.hostx64.targetx64.base''
     \<and> isnumeric [hd (join ''.'' (slice (split package_id (CHR ''.'')) 2 4))]
     \<and> scan_versions ((package_id, package_list) # items) msvc_versions sdk_versions
         = scan_versions items
             (AList.update (join ''.'' (slice (split package_id (CHR ''.'')) 2 4)) package_id
                msvc_versions) sdk_versions
   \<or> \<not> (startswith package_id ''microsoft.vc.''
         \<and> endswith package_id ''.tools.hostx64.targetx64.base''
         \<and> isnumeric [hd (join ''.'' (slice (split package_id (CHR ''.'')) 2 4))])
     \<and> (\<exists>sdk_versions'.
           scan_versions ((package_id, package_list) # items) msvc_versions sdk_versions
             = scan_versions items msvc_versions sdk_versions')"
proof -
  let ?v = "join ''.'' (slice (split package_id (CHR ''.'')) 2 4)"
  let ?tool = "startswith package_id ''microsoft.vc.''
                 \<and> endswith package_id ''.tools.hostx64.targetx64.base''"
  show ?thesis
  proof (cases ?tool)
    case True
    then have ne: "?v \<noteq> []" using version_nonempty by blast
    show ?thesis
    proof (cases "isnumeric [hd ?v]")
      case n: True
      with True ne show ?thesis by (simp add: Let_def)
    next
      case n: False
      with True ne have
        "scan_versions ((package_id, package_list) # items) msvc_versions sdk_versions
           = scan_versions items msvc_versions sdk_versions"
        by (simp add: Let_def)
      with n show ?thesis by blast
    qed
  next
    case nt: False
    show ?thesis
    proof (cases "(startswith package_id ''microsoft.visualstudio.component.windows10sdk.''
              \<or> startswith package_id ''microsoft.visualstudio.component.windows11sdk.'')
              \<and> isnumeric (last (split package_id (CHR ''.'')))")
      case True
      with nt have
        "scan_versions ((package_id, package_list) # items) msvc_versions sdk_versions
           = scan_versions items msvc_versions
               (AList.update (last (split package_id (CHR ''.''))) package_id sdk_versions)"
        by (auto simp: Let_def)
      with nt show ?thesis by blast
    next
      case False
      with nt have
        "scan_versions ((package_id, package_list) # items) msvc_versions sdk_versions
           = scan_versions items msvc_versions sdk_versions"
        by (auto simp: Let_def)
      with nt show ?thesis by blast
    qed
  qed
qed

lemma scan_versions_total:
  "\<exists>r. scan_versions items msvc_versions sdk_versions = Inr r"
proof (induction items arbitrary: msvc_versions sdk_versions)
  case Nil
  then show ?case by simp
next
  case (Cons item items)
  obtain package_id package_list where item: "item = (package_id, package_list)"
    by (cases item)
  from scan_step [of package_id package_list items msvc_versions sdk_versions]
  obtain m1 s1 where
    "scan_versions (item # items) msvc_versions sdk_versions = scan_versions items m1 s1"
    unfolding item by metis
  with Cons.IH [of m1 s1] show ?case by simp
qed

lemma scan_versions_mono:
  "scan_versions items msvc_versions sdk_versions = Inr (m', s') \<Longrightarrow>
     fst ` set msvc_versions \<subseteq> fst ` set m'"
proof (induction items arbitrary: msvc_versions sdk_versions)
  case Nil
  then show ?case by simp
next
  case (Cons item items)
  obtain package_id package_list where item: "item = (package_id, package_list)"
    by (cases item)
  let ?v = "join ''.'' (slice (split package_id (CHR ''.'')) 2 4)"
  from scan_step [of package_id package_list items msvc_versions sdk_versions]
  consider
    "scan_versions (item # items) msvc_versions sdk_versions
       = scan_versions items (AList.update ?v package_id msvc_versions) sdk_versions"
  | s1 where "scan_versions (item # items) msvc_versions sdk_versions
       = scan_versions items msvc_versions s1"
    unfolding item by metis
  then show ?case
  proof cases
    case 1
    with Cons.prems have
      "scan_versions items (AList.update ?v package_id msvc_versions) sdk_versions = Inr (m', s')"
      by simp
    from Cons.IH [OF this] show ?thesis by (auto simp: dom_update)
  next
    case 2
    with Cons.prems have "scan_versions items msvc_versions s1 = Inr (m', s')" by simp
    from Cons.IH [OF this] show ?thesis .
  qed
qed


lemma scan_versions_sound:
  "scan_versions items msvc_versions sdk_versions = Inr (m', s') \<Longrightarrow>
   (version, pid) \<in> set m' \<Longrightarrow>
     (version, pid) \<in> set msvc_versions
   \<or> pid \<in> fst ` set items
     \<and> startswith pid ''microsoft.vc.''
     \<and> endswith pid ''.tools.hostx64.targetx64.base''
     \<and> version = join ''.'' (slice (split pid (CHR ''.'')) 2 4)
     \<and> isnumeric [hd version]"
proof (induction items arbitrary: msvc_versions sdk_versions)
  case Nil
  then show ?case by simp
next
  case (Cons item items)
  obtain package_id package_list where item: "item = (package_id, package_list)"
    by (cases item)
  let ?v = "join ''.'' (slice (split package_id (CHR ''.'')) 2 4)"
  from scan_step [of package_id package_list items msvc_versions sdk_versions]
  consider
    "startswith package_id ''microsoft.vc.''"
    "endswith package_id ''.tools.hostx64.targetx64.base''"
    "isnumeric [hd ?v]"
    "scan_versions (item # items) msvc_versions sdk_versions
       = scan_versions items (AList.update ?v package_id msvc_versions) sdk_versions"
  | s1 where "scan_versions (item # items) msvc_versions sdk_versions
       = scan_versions items msvc_versions s1"
    unfolding item by metis
  then show ?case
  proof cases
    case 1
    with Cons.prems(1) have
      "scan_versions items (AList.update ?v package_id msvc_versions) sdk_versions = Inr (m', s')"
      by simp
    from Cons.IH [OF this Cons.prems(2)] consider
      "(version, pid) \<in> set (AList.update ?v package_id msvc_versions)"
    | "pid \<in> fst ` set items
        \<and> startswith pid ''microsoft.vc.''
        \<and> endswith pid ''.tools.hostx64.targetx64.base''
        \<and> version = join ''.'' (slice (split pid (CHR ''.'')) 2 4)
        \<and> isnumeric [hd version]"
      by blast
    then show ?thesis
    proof cases
      case a: 1
      from update_entries [OF a] show ?thesis
      proof
        assume "(version, pid) = (?v, package_id)"
        with 1 show ?thesis by (simp add: item)
      next
        assume "(version, pid) \<in> set msvc_versions"
        then show ?thesis by simp
      qed
    next
      case 2
      then show ?thesis by auto
    qed
  next
    case 2
    with Cons.prems(1) have "scan_versions items msvc_versions s1 = Inr (m', s')" by simp
    from Cons.IH [OF this Cons.prems(2)] show ?thesis by auto
  qed
qed

lemma scan_versions_complete:
  "scan_versions items msvc_versions sdk_versions = Inr (m', s') \<Longrightarrow>
   pid \<in> fst ` set items \<Longrightarrow>
   startswith pid ''microsoft.vc.'' \<Longrightarrow>
   endswith pid ''.tools.hostx64.targetx64.base'' \<Longrightarrow>
   isnumeric [hd (join ''.'' (slice (split pid (CHR ''.'')) 2 4))] \<Longrightarrow>
   join ''.'' (slice (split pid (CHR ''.'')) 2 4) \<in> fst ` set m'"
proof (induction items arbitrary: msvc_versions sdk_versions)
  case Nil
  then show ?case by simp
next
  case (Cons item items)
  obtain package_id package_list where item: "item = (package_id, package_list)"
    by (cases item)
  let ?v = "join ''.'' (slice (split package_id (CHR ''.'')) 2 4)"
  show ?case
  proof (cases "pid = package_id")
    case True
    with Cons.prems scan_step [of package_id package_list items msvc_versions sdk_versions]
    have "scan_versions (item # items) msvc_versions sdk_versions
       = scan_versions items (AList.update ?v package_id msvc_versions) sdk_versions"
      unfolding item by blast
    with Cons.prems(1) have
      "scan_versions items (AList.update ?v package_id msvc_versions) sdk_versions = Inr (m', s')"
      by simp
    from scan_versions_mono [OF this] True show ?thesis by (auto simp: dom_update)
  next
    case False
    with Cons.prems(2) have mem: "pid \<in> fst ` set items" by (auto simp: item)
    from scan_step [of package_id package_list items msvc_versions sdk_versions]
    obtain m1 s1 where
      "scan_versions (item # items) msvc_versions sdk_versions = scan_versions items m1 s1"
      unfolding item by metis
    with Cons.prems(1) have "scan_versions items m1 s1 = Inr (m', s')" by simp
    from Cons.IH [OF this mem Cons.prems(3,4,5)] show ?thesis .
  qed
qed

text \<open>
  C1, as the code has it. \<open>parse_available_versions\<close> never raises. Its toolchain
  versions hold an entry for an identifier of the index (a lower-cased package
  identifier of the manifest) exactly when the identifier starts with \<open>microsoft.vc.\<close>,
  ends with \<open>.tools.hostx64.targetx64.base\<close> (the architecture is x64 only) and the key,
  its third and fourth dot-separated segments joined by a dot, begins with a numeric
  character; the entry is filed under that key.
\<close>

theorem parse_available_versions_msvc_keys:
  "\<exists>packages msvc_versions sdk_versions.
      parse_available_versions ps = Inr (packages, msvc_versions, sdk_versions)
    \<and> (\<forall>version package_id. (version, package_id) \<in> set msvc_versions \<longrightarrow>
          (\<exists>p\<in>set ps. package_id = lower (pkg_id p))
        \<and> startswith package_id ''microsoft.vc.''
        \<and> endswith package_id ''.tools.hostx64.targetx64.base''
        \<and> version = join ''.'' (slice (split package_id (CHR ''.'')) 2 4)
        \<and> isnumeric [hd version])
    \<and> (\<forall>p\<in>set ps.
          startswith (lower (pkg_id p)) ''microsoft.vc.''
        \<and> endswith (lower (pkg_id p)) ''.tools.hostx64.targetx64.base''
        \<and> isnumeric [hd (join ''.'' (slice (split (lower (pkg_id p)) (CHR ''.'')) 2 4))] \<longrightarrow>
          join ''.'' (slice (split (lower (pkg_id p)) (CHR ''.'')) 2 4)
            \<in> fst ` set msvc_versions)"
proof -
  have keys: "fst ` set (index_packages ps) = (\<lambda>p. lower (pkg_id p)) ` set ps"
    unfolding index_packages_def by (simp add: index_packages_keys)
  obtain m' s' where scan: "scan_versions (index_packages ps) [] [] = Inr (m', s')"
    using scan_versions_total [of "index_packages ps" "[]" "[]"] by auto
  have run: "parse_available_versions ps = Inr (index_packages ps, m', s')"
    by (simp add: parse_available_versions_def Let_def scan)
  have sound: "(\<exists>p\<in>set ps. package_id = lower (pkg_id p))
        \<and> startswith package_id ''microsoft.vc.''
        \<and> endswith package_id ''.tools.hostx64.targetx64.base''
        \<and> version = join ''.'' (slice (split package_id (CHR ''.'')) 2 4)
        \<and> isnumeric [hd version]"
    if "(version, package_id) \<in> set m'" for version package_id
    using scan_versions_sound [OF scan that] keys by auto
  have complete: "join ''.'' (slice (split (lower (pkg_id p)) (CHR ''.'')) 2 4) \<in> fst ` set m'"
    if "p \<in> set ps" "startswith (lower (pkg_id p)) ''microsoft.vc.''"
      "endswith (lower (pkg_id p)) ''.tools.hostx64.targetx64.base''"
      "isnumeric [hd (join ''.'' (slice (split (lower (pkg_id p)) (CHR ''.'')) 2 4))]" for p
  proof -
    from that(1) keys have "lower (pkg_id p) \<in> fst ` set (index_packages ps)" by blast
    from scan_versions_complete [OF scan this that(2,3,4)] show ?thesis .
  qed
  show ?thesis
    apply (rule exI [of _ "index_packages ps"])
    apply (rule exI [of _ m'])
    apply (rule exI [of _ s'])
    using run sound complete by blast
qed


theorem parse_available_versions_msvc_keys_witness:
  "\<exists>packages msvc_versions sdk_versions.
      parse_available_versions small_manifest = Inr (packages, msvc_versions, sdk_versions)
    \<and> ''14.39'' \<in> fst ` set msvc_versions"
proof -
  let ?p = "plain_package ''Microsoft.VC.14.39.17.9.Tools.HostX64.TargetX64.base''"
  have id: "lower (pkg_id ?p) = ''microsoft.vc.14.39.17.9.tools.hostx64.targetx64.base''"
    by (simp add: plain_package_def lower_def lower_chr_def Let_def)
  have key: "join ''.'' (slice (split (lower (pkg_id ?p)) (CHR ''.'')) 2 4) = ''14.39''"
    unfolding id by (simp add: slice_def slice_bound_def)
  have cond: "startswith (lower (pkg_id ?p)) ''microsoft.vc.''
        \<and> endswith (lower (pkg_id ?p)) ''.tools.hostx64.targetx64.base''
        \<and> isnumeric [hd (join ''.'' (slice (split (lower (pkg_id ?p)) (CHR ''.'')) 2 4))]"
    unfolding key unfolding id
    by (simp add: startswith_def endswith_def isnumeric_def isnumeric_chr_def Let_def)
  have mem: "?p \<in> set small_manifest" by (simp add: small_manifest_def)
  from parse_available_versions_msvc_keys [of small_manifest]
  obtain packages msvc_versions sdk_versions where
    run: "parse_available_versions small_manifest = Inr (packages, msvc_versions, sdk_versions)"
    and complete: "\<forall>p\<in>set small_manifest.
          startswith (lower (pkg_id p)) ''microsoft.vc.''
        \<and> endswith (lower (pkg_id p)) ''.tools.hostx64.targetx64.base''
        \<and> isnumeric [hd (join ''.'' (slice (split (lower (pkg_id p)) (CHR ''.'')) 2 4))] \<longrightarrow>
          join ''.'' (slice (split (lower (pkg_id p)) (CHR ''.'')) 2 4)
            \<in> fst ` set msvc_versions"
    by (elim exE conjE)
  from complete mem have
    "startswith (lower (pkg_id ?p)) ''microsoft.vc.''
        \<and> endswith (lower (pkg_id ?p)) ''.tools.hostx64.targetx64.base''
        \<and> isnumeric [hd (join ''.'' (slice (split (lower (pkg_id ?p)) (CHR ''.'')) 2 4))] \<longrightarrow>
          join ''.'' (slice (split (lower (pkg_id ?p)) (CHR ''.'')) 2 4)
            \<in> fst ` set msvc_versions"
    by (rule bspec)
  from this cond have
    "join ''.'' (slice (split (lower (pkg_id ?p)) (CHR ''.'')) 2 4) \<in> fst ` set msvc_versions"
    by (rule mp)
  then have "''14.39'' \<in> fst ` set msvc_versions" by (simp only: key)
  with run show ?thesis by (intro exI conjI)
qed

text \<open>
  C1 as stated fails in both directions: the identifier
  \<open>microsoft.vc.14.39.tools.hostx86.targetx86.base\<close> matches the pattern of the
  specification with architecture x86 and numeric segments, and contributes no key;
  \<open>microsoft.vc.1a.3b.tools.hostx64.targetx64.base\<close> has segments that are not purely
  numeric, and contributes the key \<open>1a.3b\<close>.
\<close>

theorem parse_available_versions_differs_from_pattern:
  "spec_toolchain_version_key ''microsoft.vc.14.39.tools.hostx86.targetx86.base'' = Some ''14.39''
   \<and> parse_available_versions
        [plain_package ''Microsoft.VC.14.39.Tools.HostX86.TargetX86.base'']
      = Inr ([(''microsoft.vc.14.39.tools.hostx86.targetx86.base'',
               [plain_package ''Microsoft.VC.14.39.Tools.HostX86.TargetX86.base''])], [], [])
   \<and> spec_toolchain_version_key ''microsoft.vc.1a.3b.tools.hostx64.targetx64.base'' = None
   \<and> parse_available_versions
        [plain_package ''Microsoft.VC.1a.3b.Tools.HostX64.TargetX64.base'']
      = Inr ([(''microsoft.vc.1a.3b.tools.hostx64.targetx64.base'',
               [plain_package ''Microsoft.VC.1a.3b.Tools.HostX64.TargetX64.base''])],
             [(''1a.3b'', ''microsoft.vc.1a.3b.tools.hostx64.targetx64.base'')], [])"
  by code_simp

end
